theory Spec2Isabelle
  imports Main "HOL-Library.Log_Nat"
begin

section \<open>Strings as the program has them\<close>

text \<open>
  A Go \<open>string\<close> is a sequence of bytes and \<open>len\<close> counts bytes; \<open>string\<close> here is a list
  of 8-bit characters, so the two agree. The functions below are the ones of Go's
  \<open>strings\<close> package that \<open>main.go\<close> calls, with the argument order of the package.
\<close>

fun HasPrefix :: "string \<Rightarrow> string \<Rightarrow> bool" where
  "HasPrefix s [] = True"
| "HasPrefix [] (p # ps) = False"
| "HasPrefix (c # s) (p # ps) = (c = p \<and> HasPrefix s ps)"

definition HasSuffix :: "string \<Rightarrow> string \<Rightarrow> bool" where
  "HasSuffix s suf = HasPrefix (rev s) (rev suf)"

fun Contains :: "string \<Rightarrow> string \<Rightarrow> bool" where
  "Contains [] sub = (sub = [])"
| "Contains (c # s) sub = (HasPrefix (c # s) sub \<or> Contains s sub)"

definition TrimPrefix :: "string \<Rightarrow> string \<Rightarrow> string" where
  "TrimPrefix s p = (if HasPrefix s p then drop (length p) s else s)"

definition TrimSuffix :: "string \<Rightarrow> string \<Rightarrow> string" where
  "TrimSuffix s suf = (if HasSuffix s suf then take (length s - length suf) s else s)"

text \<open>
  \<open>strings.Replace(s, old, new, 1)\<close>: the first occurrence of \<open>old\<close> is replaced, and
  \<open>s\<close> is returned as it is when there is none. The program only calls it with a
  non-empty \<open>old\<close>.
\<close>

fun Replace1 :: "string \<Rightarrow> string \<Rightarrow> string \<Rightarrow> string" where
  "Replace1 [] old new = (if old = [] then new else [])"
| "Replace1 (c # s) old new =
     (if HasPrefix (c # s) old then new @ drop (length old) (c # s)
      else c # Replace1 s old new)"

section \<open>The checks on a generated text (main.go, lines 131 to 189)\<close>

definition inc_gtest :: string where
  "inc_gtest = ''#include <gtest/gtest.h>''"

definition inc_cmath :: string where
  "inc_cmath = ''#include <cmath>''"

definition inc_stdexcept :: string where
  "inc_stdexcept = ''#include <stdexcept>''"

definition inc_example :: string where
  "inc_example = ''#include '' @ [CHR 0x22] @ ''example.h'' @ [CHR 0x22]"

definition methods :: "string list" where
  "methods = [''add'', ''subtract'']"

text \<open>
  The regular expression \<open>TEST\([^)]+\)\s*{[^}]*$\<close> of line 156. Go's \<open>\s\<close> is the
  class of tab, newline, form feed, carriage return and space; \<open>$\<close> without the
  multi-line flag is the end of the text; a negated class also takes a newline.
  After \<open>TEST(\<close> the class \<open>[^)]+\<close> is followed by \<open>)\<close>, so it takes exactly the bytes up
  to the first \<open>)\<close>; after that the blanks are followed by \<open>{\<close>, which is no blank. A
  match at a given position is therefore decided by one left-to-right scan.
  Every byte the expression names is ASCII, and a byte of a multi-byte rune is never
  one, so matching on bytes and on runes agree.
\<close>

definition reSpace :: "char \<Rightarrow> bool" where
  "reSpace c = (c = CHR 0x09 \<or> c = CHR 0x0A \<or> c = CHR 0x0C \<or> c = CHR 0x0D \<or> c = CHR 0x20)"

definition incompleteAt :: "string \<Rightarrow> bool" where
  "incompleteAt s =
     (HasPrefix s ''TEST('' \<and>
      (let r = drop 5 s;
           args = takeWhile (\<lambda>c. c \<noteq> CHR '')'') r
       in args \<noteq> [] \<and>
          (case dropWhile (\<lambda>c. c \<noteq> CHR '')'') r of
             [] \<Rightarrow> False
           | _ # r1 \<Rightarrow>
               (case dropWhile reSpace r1 of
                  [] \<Rightarrow> False
                | b # body \<Rightarrow> b = CHR ''{'' \<and> CHR ''}'' \<notin> set body))))"

fun incompleteTEST :: "string \<Rightarrow> bool" where
  "incompleteTEST [] = incompleteAt []"
| "incompleteTEST (c # s) = (incompleteAt (c # s) \<or> incompleteTEST s)"

text \<open>
  \<open>len(re.FindAllString(output, -1))\<close> for a literal pattern: the matches are taken
  from left to right and do not overlap, so after a match the scan resumes behind it
  (\<open>skip\<close> counts the bytes of the current match that are still to be passed).
\<close>

fun countMatches :: "string \<Rightarrow> nat \<Rightarrow> string \<Rightarrow> nat" where
  "countMatches pat skip [] = 0"
| "countMatches pat skip (c # s) =
     (if 0 < skip then countMatches pat (skip - 1) s
      else if HasPrefix (c # s) pat then Suc (countMatches pat (length pat - 1) s)
      else countMatches pat 0 s)"

definition testCount :: "string \<Rightarrow> nat" where
  "testCount output = countMatches ''TEST(CalculatorTest,'' 0 output"

definition missingMethods :: "string \<Rightarrow> string list" where
  "missingMethods output = filter (\<lambda>m. \<not> Contains output (m @ ''('')) methods"

text \<open>
  The brace counter of lines 178 to 185. It is a Go \<open>int\<close> (64 bits); its absolute value
  is at most the length of the text, so it never wraps and \<open>int\<close> models it.
\<close>

definition braceStep :: "char \<Rightarrow> int \<Rightarrow> int" where
  "braceStep c n = (if c = CHR ''{'' then n + 1 else if c = CHR ''}'' then n - 1 else n)"

definition braceCount :: "string \<Rightarrow> int" where
  "braceCount output = fold braceStep output 0"

text \<open>
  Each rejection is a log line and a \<open>continue\<close> in the source; the reason keeps what the
  log line prints.
\<close>

datatype reason =
    TooShort nat
  | MissingInclude string
  | MissingTESTMacro
  | IncompleteTESTMacro
  | WrongTestCount nat
  | MissingMethods "string list"
  | UnbalancedBraces int

datatype verdict = Accepted string | Rejected reason

definition validate :: "string \<Rightarrow> verdict" where
  "validate output =
     (if length output < 250 then Rejected (TooShort (length output))
      else if \<not> Contains output inc_gtest then Rejected (MissingInclude inc_gtest)
      else if \<not> Contains output inc_cmath then Rejected (MissingInclude inc_cmath)
      else if \<not> Contains output inc_stdexcept then Rejected (MissingInclude inc_stdexcept)
      else if \<not> Contains output inc_example then Rejected (MissingInclude inc_example)
      else if \<not> Contains output ''TEST'' then Rejected MissingTESTMacro
      else if incompleteTEST output then Rejected IncompleteTESTMacro
      else if testCount output \<noteq> 4 then Rejected (WrongTestCount (testCount output))
      else if 0 < length (missingMethods output) then Rejected (MissingMethods (missingMethods output))
      else if braceCount output \<noteq> 0 then Rejected (UnbalancedBraces (braceCount output))
      else Accepted output)"

section \<open>Normalising a response (main.go, lines 122 to 124)\<close>

text \<open>
  \<open>strings.TrimSpace\<close> removes the leading and trailing white space "as defined by
  Unicode": the six ASCII blanks, U+0085 and U+00A0, and the other code points with the
  White_Space property (U+1680, U+2000 to U+200A, U+2028, U+2029, U+202F, U+205F,
  U+3000). On the bytes of the text these are the UTF-8 encodings below. Go decodes a
  rune from the front by its first byte and from the back by the nearest start byte, and
  an invalid byte is the rune U+FFFD of width one, which is no blank; so a blank rune
  stands at the front (at the back) exactly when one of these encodings is a prefix (a
  suffix) of the text.
\<close>

definition spaceEncodings :: "string list" where
  "spaceEncodings =
     [[CHR 0x09], [CHR 0x0A], [CHR 0x0B], [CHR 0x0C], [CHR 0x0D], [CHR 0x20],
      [CHR 0xC2, CHR 0x85], [CHR 0xC2, CHR 0xA0],
      [CHR 0xE1, CHR 0x9A, CHR 0x80],
      [CHR 0xE2, CHR 0x80, CHR 0x80], [CHR 0xE2, CHR 0x80, CHR 0x81],
      [CHR 0xE2, CHR 0x80, CHR 0x82], [CHR 0xE2, CHR 0x80, CHR 0x83],
      [CHR 0xE2, CHR 0x80, CHR 0x84], [CHR 0xE2, CHR 0x80, CHR 0x85],
      [CHR 0xE2, CHR 0x80, CHR 0x86], [CHR 0xE2, CHR 0x80, CHR 0x87],
      [CHR 0xE2, CHR 0x80, CHR 0x88], [CHR 0xE2, CHR 0x80, CHR 0x89],
      [CHR 0xE2, CHR 0x80, CHR 0x8A],
      [CHR 0xE2, CHR 0x80, CHR 0xA8], [CHR 0xE2, CHR 0x80, CHR 0xA9],
      [CHR 0xE2, CHR 0x80, CHR 0xAF], [CHR 0xE2, CHR 0x81, CHR 0x9F],
      [CHR 0xE3, CHR 0x80, CHR 0x80]]"

text \<open>
  \<open>trimBy encs skip s\<close> drops from the front of \<open>s\<close> every blank of \<open>encs\<close>; \<open>skip\<close> is
  the number of bytes of the current blank that are still to be dropped.
\<close>

fun trimBy :: "string list \<Rightarrow> nat \<Rightarrow> string \<Rightarrow> string" where
  "trimBy encs skip [] = []"
| "trimBy encs skip (c # s) =
     (if 0 < skip then trimBy encs (skip - 1) s
      else (case find (HasPrefix (c # s)) encs of
              None \<Rightarrow> c # s
            | Some e \<Rightarrow> trimBy encs (length e - 1) s))"

definition TrimLeft :: "string \<Rightarrow> string" where
  "TrimLeft s = trimBy spaceEncodings 0 s"

definition TrimRight :: "string \<Rightarrow> string" where
  "TrimRight s = rev (trimBy (map rev spaceEncodings) 0 (rev s))"

definition TrimSpace :: "string \<Rightarrow> string" where
  "TrimSpace s = TrimRight (TrimLeft s)"

definition fenceOpen :: string where
  "fenceOpen = [CHR 0x60, CHR 0x60, CHR 0x60] @ ''cpp'' @ [CHR 0x0A]"

definition fenceClose :: string where
  "fenceClose = [CHR 0x0A, CHR 0x60, CHR 0x60, CHR 0x60]"

definition normalize :: "string \<Rightarrow> string" where
  "normalize raw = TrimSpace (TrimSuffix (TrimPrefix raw fenceOpen) fenceClose)"

section \<open>Paths\<close>

text \<open>
  \<open>filepath.Base\<close> and \<open>filepath.Join\<close> where the separator is \<open>/\<close> and there is no volume
  name (the program builds for a Unix system, see \<open>brewPrefix\<close>).
\<close>

definition stripSlashes :: "string \<Rightarrow> string" where
  "stripSlashes p = rev (dropWhile (\<lambda>c. c = CHR ''/'') (rev p))"

definition Base :: "string \<Rightarrow> string" where
  "Base path =
     (if path = [] then ''.''
      else let p = stripSlashes path;
               e = rev (takeWhile (\<lambda>c. c \<noteq> CHR ''/'') (rev p))
           in if e = [] then ''/'' else e)"

fun splitPath :: "string \<Rightarrow> string list" where
  "splitPath [] = [[]]"
| "splitPath (c # s) =
     (if c = CHR ''/'' then [] # splitPath s
      else (case splitPath s of [] \<Rightarrow> [[c]] | e # es \<Rightarrow> (c # e) # es))"

text \<open>
  \<open>filepath.Clean\<close>: empty and \<open>.\<close> elements go, a \<open>..\<close> takes the element before it away
  unless that is \<open>..\<close> too, a \<open>..\<close> at the root goes, and the empty result is \<open>.\<close>. The
  elements kept so far are held in reverse.
\<close>

definition cleanStep :: "bool \<Rightarrow> string list \<Rightarrow> string \<Rightarrow> string list" where
  "cleanStep rooted kept e =
     (if e = [] \<or> e = ''.'' then kept
      else if e = ''..'' then
        (case kept of
           [] \<Rightarrow> if rooted then [] else [e]
         | k # ks \<Rightarrow> if k = ''..'' then e # kept else ks)
      else e # kept)"

fun joinElems :: "string list \<Rightarrow> string" where
  "joinElems [] = []"
| "joinElems [e] = e"
| "joinElems (e # es) = e @ ''/'' @ joinElems es"

definition Clean :: "string \<Rightarrow> string" where
  "Clean path =
     (let rooted = HasPrefix path ''/'';
          kept = rev (foldl (cleanStep rooted) [] (splitPath path));
          out = (if rooted then ''/'' else []) @ joinElems kept
      in if out = [] then ''.'' else out)"

definition Join :: "string \<Rightarrow> string \<Rightarrow> string" where
  "Join a b =
     (if a = [] \<and> b = [] then []
      else if a = [] then Clean b
      else if b = [] then Clean a
      else Clean (a @ ''/'' @ b))"

text \<open>The output path of lines 386 to 390.\<close>

definition testFileOf :: "string \<Rightarrow> string" where
  "testFileOf filePath =
     (let baseName = Base filePath;
          testFile = Join ''./tests'' (Replace1 baseName ''.cpp'' ''_test.cpp'')
      in if HasSuffix baseName ''.h''
         then Join ''./tests'' (Replace1 baseName ''.h'' ''_test.cpp'')
         else testFile)"

section \<open>Reading the coverage report (main.go, lines 276 to 290)\<close>

text \<open>
  The values of a \<open>float64\<close> that the program can hold are finite and not negative, so a
  \<open>float64\<close> is the rational number it stands for. \<open>strconv.ParseFloat\<close> returns the
  nearest \<open>float64\<close> under IEEE 754 rounding to nearest, ties to even, and a range error
  when that rounding leaves the format.
\<close>

type_synonym float64 = rat

definition ilog2 :: "rat \<Rightarrow> int" where
  "ilog2 v =
     (if 1 \<le> v then int (floorlog 2 (nat \<lfloor>v\<rfloor>)) - 1
      else - int (floorlog 2 (nat (\<lceil>1 / v\<rceil> - 1))))"

definition roundHalfEven :: "rat \<Rightarrow> int" where
  "roundHalfEven x =
     (let f = \<lfloor>x\<rfloor>; d = x - of_int f
      in if d < 1 / 2 then f else if 1 / 2 < d then f + 1 else if even f then f else f + 1)"

definition roundFloat64 :: "rat \<Rightarrow> float64 option" where
  "roundFloat64 v =
     (if v = 0 then Some 0
      else let e = max (- 1022) (ilog2 v);
               q = 2 powi (e - 52);
               r = of_int (roundHalfEven (v / q)) * q
           in if 2 ^ 1024 \<le> r then None else Some r)"

definition isDigit :: "char \<Rightarrow> bool" where
  "isDigit c = (c \<in> set ''0123456789'')"

text \<open>The value of a digit is its place in the row of digits (\<open>c - '0'\<close> in Go).\<close>

definition digitVal :: "char \<Rightarrow> nat" where
  "digitVal c = length (takeWhile (\<lambda>d. d \<noteq> c) ''0123456789'')"

definition digitsVal :: "string \<Rightarrow> nat" where
  "digitsVal ds = foldl (\<lambda>n c. 10 * n + digitVal c) 0 ds"

text \<open>
  \<open>ParseFloat\<close> on the texts the capture group \<open>[\d.]+\<close> can hold: digits with at most
  one point and at least one digit are a number, anything else of that alphabet is a
  syntax error. (Signs, exponents, hexadecimal and the words for infinity and NaN have
  a byte outside the group, so the program never passes them; this model answers
  \<open>None\<close> there and is not meant for them.)
\<close>

definition decimalValue :: "string \<Rightarrow> rat option" where
  "decimalValue s =
     (let ip = takeWhile isDigit s
      in case dropWhile isDigit s of
           [] \<Rightarrow> if ip = [] then None else Some (of_nat (digitsVal ip))
         | c # fp \<Rightarrow>
             if c = CHR ''.'' \<and> list_all isDigit fp \<and> (ip \<noteq> [] \<or> fp \<noteq> [])
             then Some (of_nat (digitsVal (ip @ fp)) / 10 ^ length fp)
             else None)"

definition ParseFloat :: "string \<Rightarrow> float64 option" where
  "ParseFloat s = (case decimalValue s of None \<Rightarrow> None | Some v \<Rightarrow> roundFloat64 v)"

text \<open>
  \<open>re.FindStringSubmatch\<close> for \<open>Lines executed:([\d.]+)% of (\d+)\<close>: the leftmost match,
  and of it the first group. The group is followed by \<open>%\<close>, which it cannot take, so at
  a given position it is the whole run of digits and points. The result is \<open>None\<close>
  where the source finds \<open>len(matches) < 2\<close>.
\<close>

definition isDigitOrDot :: "char \<Rightarrow> bool" where
  "isDigitOrDot c = (isDigit c \<or> c = CHR ''.'')"

definition coverageAt :: "string \<Rightarrow> string option" where
  "coverageAt s =
     (if HasPrefix s ''Lines executed:'' then
        (let r = drop 15 s;
             num = takeWhile isDigitOrDot r;
             rest = dropWhile isDigitOrDot r
         in if num \<noteq> [] \<and> HasPrefix rest ''% of '' \<and>
               (case drop 5 rest of [] \<Rightarrow> False | d # _ \<Rightarrow> isDigit d)
            then Some num else None)
      else None)"

fun FindCoverage :: "string \<Rightarrow> string option" where
  "FindCoverage [] = coverageAt []"
| "FindCoverage (c # s) =
     (case coverageAt (c # s) of Some m \<Rightarrow> Some m | None \<Rightarrow> FindCoverage s)"

datatype error =
    ListFailed
  | Exhausted
  | MkdirTempFailed
  | WriteTestFailed
  | CopySourceFailed
  | CopyHeaderFailed
  | CompilationFailed string
  | TestsFailed string
  | GcovFailed string
  | GcovParseFailed string
  | CoverageParseFailed
  | BelowThreshold float64

text \<open>
  Lines 276 to 292: from the report of the coverage tool to the triple that
  \<open>runTestsAndCoverage\<close> returns.
\<close>

definition coverageGate :: "string \<Rightarrow> bool \<times> float64 \<times> error option" where
  "coverageGate gcovOutput =
     (case FindCoverage gcovOutput of
        None \<Rightarrow> (True, 0, Some (GcovParseFailed gcovOutput))
      | Some m \<Rightarrow>
          (case ParseFloat m of
             None \<Rightarrow> (True, 0, Some CoverageParseFailed)
           | Some coverage \<Rightarrow>
               if coverage < 80 then (False, coverage, Some (BelowThreshold coverage))
               else (True, coverage, None)))"

section \<open>The world outside the program\<close>

text \<open>
  The generation backend, the file system and the processes the program starts are not
  part of it. Each call to them is a function of an abstract world \<open>'w\<close> that returns
  its answer and the next world; nothing is assumed about these functions. The state
  the program threads through its calls is that world together with the list of the
  calls made so far and their answers, in order.
\<close>

record request =
  Model :: string
  Prompt :: string
  Options :: "(string \<times> int) list"

datatype stat = StatOk | StatNotExist | StatError

text \<open>The place in the program that writes a file.\<close>

datatype site = RawResponse | SandboxTest | SandboxCopy | TestsDir

datatype event =
    EvList "string list option"
  | EvGenerate request "string option"
  | EvWriteFile site string string bool
  | EvReadFile string "string option"
  | EvStat string stat
  | EvMkdirTemp "string option"
  | EvRemoveAll string
  | EvCompile string "bool \<times> string"
  | EvRunTests string "bool \<times> string"
  | EvGcov string "bool \<times> string"
  | EvUrlParse bool
  | EvReadCodebase "(string \<times> string) list option"
  | EvMkdirAll string bool

record 'w env =
  clientList :: "'w \<Rightarrow> string list option \<times> 'w"
  clientGenerate :: "request \<Rightarrow> 'w \<Rightarrow> string option \<times> 'w"
  osWriteFile :: "string \<Rightarrow> string \<Rightarrow> 'w \<Rightarrow> bool \<times> 'w"
  osReadFile :: "string \<Rightarrow> 'w \<Rightarrow> string option \<times> 'w"
  osStat :: "string \<Rightarrow> 'w \<Rightarrow> stat \<times> 'w"
  osMkdirTemp :: "'w \<Rightarrow> string option \<times> 'w"
  osRemoveAll :: "string \<Rightarrow> 'w \<Rightarrow> unit \<times> 'w"
  execCompile :: "string \<Rightarrow> string \<Rightarrow> string \<Rightarrow> 'w \<Rightarrow> (bool \<times> string) \<times> 'w"
  execRunTests :: "string \<Rightarrow> 'w \<Rightarrow> (bool \<times> string) \<times> 'w"
  execGcov :: "string \<Rightarrow> string \<Rightarrow> 'w \<Rightarrow> (bool \<times> string) \<times> 'w"
  urlParse :: "'w \<Rightarrow> bool \<times> 'w"
  walkCodebase :: "'w \<Rightarrow> (string \<times> string) list option \<times> 'w"
  osMkdirAll :: "string \<Rightarrow> 'w \<Rightarrow> bool \<times> 'w"

record 'w state =
  world :: 'w
  trace :: "event list"

definition call :: "('w \<Rightarrow> 'a \<times> 'w) \<Rightarrow> ('a \<Rightarrow> event) \<Rightarrow> 'w state \<Rightarrow> 'a \<times> 'w state" where
  "call f ev \<sigma> =
     (case f (world \<sigma>) of (r, w) \<Rightarrow> (r, \<lparr>world = w, trace = trace \<sigma> @ [ev r]\<rparr>))"

section \<open>generateUnitTests\<close>

fun joinLines :: "string list \<Rightarrow> string" where
  "joinLines [] = []"
| "joinLines [l] = l"
| "joinLines (l # ls) = l @ [CHR 0x0A] @ joinLines ls"

definition methodsList :: string where
  "methodsList = ''add, subtract''"

definition buildPrompt :: "string \<Rightarrow> string" where
  "buildPrompt code = joinLines
     [''You are an expert C++ programmer tasked with generating unit tests using Google Test for the provided C++ code. Follow these requirements strictly:'',
      ''- Use C++17 standard.'',
      ''- Include exactly these headers: '' @ [CHR 0x60] @ inc_gtest @ [CHR 0x60] @ '', ''
         @ [CHR 0x60] @ inc_cmath @ [CHR 0x60] @ '', '' @ [CHR 0x60] @ inc_stdexcept @ [CHR 0x60]
         @ '', '' @ [CHR 0x60] @ inc_example @ [CHR 0x60] @ ''.'',
      ''- Use '' @ [CHR 0x60] @ ''TEST'' @ [CHR 0x60] @ '' macros with descriptive names (e.g., ''
         @ [CHR 0x60] @ ''TEST(CalculatorTest, Add_PositiveNumbers)).'',
      ''- Write tests for these methods only: '' @ methodsList @ ''.'',
      ''- Write exactly 4 test cases (2 per method): one for positive inputs and one for negative inputs.'',
      ''- Avoid edge cases involving INT_MIN or INT_MAX to prevent integer overflow issues.'',
      ''- Ensure each '' @ [CHR 0x60] @ ''TEST'' @ [CHR 0x60] @ '' macro has complete braces ''
         @ [CHR 0x60] @ ''{}'' @ [CHR 0x60] @ '' and valid assertions ('' @ [CHR 0x60]
         @ ''EXPECT_EQ'' @ [CHR 0x60] @ '').'',
      ''- Output a complete, syntactically correct .cpp file without Markdown code fences, comments outside test code, or extra text.'',
      ''- Example format:'',
      inc_gtest,
      inc_cmath,
      inc_stdexcept,
      inc_example,
      ''TEST(CalculatorTest, Add_PositiveNumbers) {'',
      ''    Calculator calc;'',
      ''    EXPECT_EQ(calc.add(2, 3), 5);'',
      ''}'',
      [],
      ''**Code to test:**'',
      code,
      [],
      ''Generate the unit test code as a valid .cpp file following the example format exactly.'']"

definition buildRequest :: "string \<Rightarrow> string \<Rightarrow> request" where
  "buildRequest model code =
     \<lparr>Model = model, Prompt = buildPrompt code,
      Options = [(''num_ctx'', 131072), (''num_predict'', 1024)]\<rparr>"

fun showNat :: "nat \<Rightarrow> string" where
  "showNat n =
     (if n < 10 then [char_of (48 + n)] else showNat (n div 10) @ [char_of (48 + n mod 10)])"

definition rawResponseName :: "string \<Rightarrow> nat \<Rightarrow> string" where
  "rawResponseName currentModel attempt =
     ''raw_response_'' @ currentModel @ ''_attempt_'' @ showNat attempt @ ''.txt''"

definition availableModelsOf :: "string \<Rightarrow> string list \<Rightarrow> string list" where
  "availableModelsOf model names = model # filter (\<lambda>n. n \<noteq> model) names"

text \<open>
  The inner loop, lines 107 to 193: \<open>attempt\<close> runs from its start value to 3. A failed
  call and a rejected text both go on to the next attempt; an accepted text is returned
  at once. The request is passed by pointer to the client, which is taken not to write
  through it.
\<close>

function attemptLoop :: "'w env \<Rightarrow> request \<Rightarrow> nat \<Rightarrow> 'w state \<Rightarrow> string option \<times> 'w state" where
  "attemptLoop E req attempt \<sigma> =
     (if attempt \<le> 3 then
        (case call (clientGenerate E req) (EvGenerate req) \<sigma> of
           (None, \<sigma>1) \<Rightarrow> attemptLoop E req (attempt + 1) \<sigma>1
         | (Some raw, \<sigma>1) \<Rightarrow>
             (case call (osWriteFile E (rawResponseName (Model req) attempt) (normalize raw))
                        (EvWriteFile RawResponse (rawResponseName (Model req) attempt) (normalize raw)) \<sigma>1 of
                (saved, \<sigma>2) \<Rightarrow>
                  (case validate (normalize raw) of
                     Accepted output \<Rightarrow> (Some output, \<sigma>2)
                   | Rejected r \<Rightarrow> attemptLoop E req (attempt + 1) \<sigma>2)))
      else (None, \<sigma>))"
  by pat_completeness auto
termination
  by (relation "measure (\<lambda>(E, req, attempt, \<sigma>). 4 - attempt)") auto

text \<open>The outer loop, lines 103 to 194: \<open>req.Model\<close> is set to each model in turn.\<close>

fun modelLoop :: "'w env \<Rightarrow> request \<Rightarrow> string list \<Rightarrow> 'w state \<Rightarrow> string option \<times> 'w state" where
  "modelLoop E req [] \<sigma> = (None, \<sigma>)"
| "modelLoop E req (currentModel # rest) \<sigma> =
     (case attemptLoop E (req\<lparr>Model := currentModel\<rparr>) 1 \<sigma> of
        (Some output, \<sigma>1) \<Rightarrow> (Some output, \<sigma>1)
      | (None, \<sigma>1) \<Rightarrow> modelLoop E (req\<lparr>Model := currentModel\<rparr>) rest \<sigma>1)"

definition generateUnitTests :: "'w env \<Rightarrow> string \<Rightarrow> string \<Rightarrow> 'w state \<Rightarrow> (error + string) \<times> 'w state" where
  "generateUnitTests E model code \<sigma> =
     (case call (clientList E) EvList \<sigma> of
        (None, \<sigma>1) \<Rightarrow> (Inl ListFailed, \<sigma>1)
      | (Some names, \<sigma>1) \<Rightarrow>
          (case modelLoop E (buildRequest model code) (availableModelsOf model names) \<sigma>1 of
             (Some output, \<sigma>2) \<Rightarrow> (Inr output, \<sigma>2)
           | (None, \<sigma>2) \<Rightarrow> (Inl Exhausted, \<sigma>2)))"

section \<open>runTestsAndCoverage\<close>

definition copyFile :: "'w env \<Rightarrow> string \<Rightarrow> string \<Rightarrow> 'w state \<Rightarrow> bool \<times> 'w state" where
  "copyFile E src dst \<sigma> =
     (case call (osReadFile E src) (EvReadFile src) \<sigma> of
        (None, \<sigma>1) \<Rightarrow> (False, \<sigma>1)
      | (Some input, \<sigma>1) \<Rightarrow> call (osWriteFile E dst input) (EvWriteFile SandboxCopy dst input) \<sigma>1)"

type_synonym outcome3 = "bool \<times> float64 \<times> error option"

text \<open>Lines 266 to 292: the coverage tool and its report.\<close>

definition coverageStage :: "'w env \<Rightarrow> string \<Rightarrow> string \<Rightarrow> 'w state \<Rightarrow> outcome3 \<times> 'w state" where
  "coverageStage E tempDir baseName \<sigma> =
     (case call (execGcov E tempDir baseName) (EvGcov baseName) \<sigma> of
        ((False, gcovOutput), \<sigma>1) \<Rightarrow> ((True, 0, Some (GcovFailed gcovOutput)), \<sigma>1)
      | ((True, gcovOutput), \<sigma>1) \<Rightarrow> (coverageGate gcovOutput, \<sigma>1))"

text \<open>Lines 232 to 264: the compiler and the test binary.\<close>

definition compileAndRun :: "'w env \<Rightarrow> string \<Rightarrow> string \<Rightarrow> 'w state \<Rightarrow> outcome3 \<times> 'w state" where
  "compileAndRun E tempDir baseName \<sigma> =
     (case call (execCompile E tempDir (Base (Join tempDir ''test.cpp'')) (Base (Join tempDir baseName)))
                (EvCompile tempDir) \<sigma> of
        ((False, compileOutput), \<sigma>1) \<Rightarrow> ((False, 0, Some (CompilationFailed compileOutput)), \<sigma>1)
      | ((True, compileOutput), \<sigma>1) \<Rightarrow>
          (case call (execRunTests E (Join tempDir ''run_tests'')) (EvRunTests (Join tempDir ''run_tests'')) \<sigma>1 of
             ((False, runOutput), \<sigma>2) \<Rightarrow> ((False, 0, Some (TestsFailed runOutput)), \<sigma>2)
           | ((True, runOutput), \<sigma>2) \<Rightarrow> coverageStage E tempDir baseName \<sigma>2))"

text \<open>Lines 222 to 230: the header goes along when the source ends in \<open>.cpp\<close> and it exists.\<close>

definition copyHeader :: "'w env \<Rightarrow> string \<Rightarrow> string \<Rightarrow> 'w state \<Rightarrow> bool \<times> 'w state" where
  "copyHeader E tempDir sourceFile \<sigma> =
     (if HasSuffix sourceFile ''.cpp'' then
        (let headerFile = Replace1 sourceFile ''.cpp'' ''.h''
         in case call (osStat E headerFile) (EvStat headerFile) \<sigma> of
              (StatOk, \<sigma>1) \<Rightarrow> copyFile E headerFile (Join tempDir (Base headerFile)) \<sigma>1
            | (StatNotExist, \<sigma>1) \<Rightarrow> (True, \<sigma>1)
            | (StatError, \<sigma>1) \<Rightarrow> (True, \<sigma>1))
      else (True, \<sigma>))"

text \<open>Lines 210 to 292, inside the temporary directory.\<close>

definition sandbox :: "'w env \<Rightarrow> string \<Rightarrow> string \<Rightarrow> string \<Rightarrow> 'w state \<Rightarrow> outcome3 \<times> 'w state" where
  "sandbox E tempDir testFile sourceFile \<sigma> =
     (case call (osWriteFile E (Join tempDir ''test.cpp'') testFile)
                (EvWriteFile SandboxTest (Join tempDir ''test.cpp'') testFile) \<sigma> of
        (False, \<sigma>1) \<Rightarrow> ((False, 0, Some WriteTestFailed), \<sigma>1)
      | (True, \<sigma>1) \<Rightarrow>
          (case copyFile E sourceFile (Join tempDir (Base sourceFile)) \<sigma>1 of
             (False, \<sigma>2) \<Rightarrow> ((False, 0, Some CopySourceFailed), \<sigma>2)
           | (True, \<sigma>2) \<Rightarrow>
               (case copyHeader E tempDir sourceFile \<sigma>2 of
                  (False, \<sigma>3) \<Rightarrow> ((False, 0, Some CopyHeaderFailed), \<sigma>3)
                | (True, \<sigma>3) \<Rightarrow> compileAndRun E tempDir (Base sourceFile) \<sigma>3)))"

text \<open>
  The whole function: the temporary directory is made first, and the deferred
  \<open>os.RemoveAll\<close> runs on every return after that.
\<close>

definition runTestsAndCoverage :: "'w env \<Rightarrow> string \<Rightarrow> string \<Rightarrow> 'w state \<Rightarrow> outcome3 \<times> 'w state" where
  "runTestsAndCoverage E testFile sourceFile \<sigma> =
     (case call (osMkdirTemp E) EvMkdirTemp \<sigma> of
        (None, \<sigma>1) \<Rightarrow> ((False, 0, Some MkdirTempFailed), \<sigma>1)
      | (Some tempDir, \<sigma>1) \<Rightarrow>
          (case sandbox E tempDir testFile sourceFile \<sigma>1 of
             (res, \<sigma>2) \<Rightarrow>
               (case call (osRemoveAll E tempDir) (\<lambda>u. EvRemoveAll tempDir) \<sigma>2 of
                  (u, \<sigma>3) \<Rightarrow> (res, \<sigma>3))))"

section \<open>The loop of main over the files (lines 343 to 399)\<close>

datatype outcome =
    Skipped
  | GenerationFailed error
  | TestValidationFailed error
  | TestsNotPassed
  | WriteFailed string
  | Persisted string float64

text \<open>
  The check of lines 347 to 360: a unit is skipped when the file that
  \<open>strings.Replace\<close> names as its companion does not exist. Any other answer of
  \<open>os.Stat\<close>, also another error, lets the unit through.
\<close>

definition pairingCheck :: "'w env \<Rightarrow> string \<Rightarrow> 'w state \<Rightarrow> bool \<times> 'w state" where
  "pairingCheck E filePath \<sigma> =
     (if HasSuffix filePath ''.h'' then
        (case call (osStat E (Replace1 filePath ''.h'' ''.cpp''))
                   (EvStat (Replace1 filePath ''.h'' ''.cpp'')) \<sigma> of
           (st, \<sigma>1) \<Rightarrow> (st \<noteq> StatNotExist, \<sigma>1))
      else if HasSuffix filePath ''.cpp'' then
        (case call (osStat E (Replace1 filePath ''.cpp'' ''.h''))
                   (EvStat (Replace1 filePath ''.cpp'' ''.h'')) \<sigma> of
           (st, \<sigma>1) \<Rightarrow> (st \<noteq> StatNotExist, \<sigma>1))
      else (True, \<sigma>))"

definition sourceFileOf :: "string \<Rightarrow> string" where
  "sourceFileOf filePath =
     (if HasSuffix filePath ''.h'' then Replace1 filePath ''.h'' ''.cpp'' else filePath)"

definition defaultModel :: string where
  "defaultModel = ''qwen2.5-coder:7b''"

definition processUnit :: "'w env \<Rightarrow> string \<times> string \<Rightarrow> 'w state \<Rightarrow> outcome \<times> 'w state" where
  "processUnit E unit \<sigma> =
     (case unit of (filePath, content) \<Rightarrow>
        (case pairingCheck E filePath \<sigma> of
           (False, \<sigma>1) \<Rightarrow> (Skipped, \<sigma>1)
         | (True, \<sigma>1) \<Rightarrow>
             (case generateUnitTests E defaultModel content \<sigma>1 of
                (Inl err, \<sigma>2) \<Rightarrow> (GenerationFailed err, \<sigma>2)
              | (Inr tests, \<sigma>2) \<Rightarrow>
                  (case runTestsAndCoverage E tests (sourceFileOf filePath) \<sigma>2 of
                     ((passed, coverage, Some err), \<sigma>3) \<Rightarrow> (TestValidationFailed err, \<sigma>3)
                   | ((passed, coverage, None), \<sigma>3) \<Rightarrow>
                       if \<not> passed then (TestsNotPassed, \<sigma>3)
                       else (case call (osWriteFile E (testFileOf filePath) tests)
                                       (EvWriteFile TestsDir (testFileOf filePath) tests) \<sigma>3 of
                               (False, \<sigma>4) \<Rightarrow> (WriteFailed (testFileOf filePath), \<sigma>4)
                             | (True, \<sigma>4) \<Rightarrow> (Persisted (testFileOf filePath) coverage, \<sigma>4))))))"





section \<open>Reading a run off the list of calls\<close>

definition newEvents :: "'w state \<Rightarrow> 'w state \<Rightarrow> event list" where
  "newEvents \<sigma> \<sigma>' = drop (length (trace \<sigma>)) (trace \<sigma>')"

fun genCalls :: "event list \<Rightarrow> (request \<times> string option) list" where
  "genCalls [] = []"
| "genCalls (EvGenerate req answer # evs) = (req, answer) # genCalls evs"
| "genCalls (ev # evs) = genCalls evs"

fun writesAt :: "site \<Rightarrow> event list \<Rightarrow> (string \<times> string) list" where
  "writesAt st [] = []"
| "writesAt st (EvWriteFile st' name data ok # evs) =
     (if st' = st then (name, data) # writesAt st evs else writesAt st evs)"
| "writesAt st (ev # evs) = writesAt st evs"

text \<open>An answer of the backend whose normalised text passes the checks.\<close>

definition acceptedAnswer :: "string option \<Rightarrow> bool" where
  "acceptedAnswer answer =
     (case answer of None \<Rightarrow> False
      | Some raw \<Rightarrow> validate (normalize raw) = Accepted (normalize raw))"

text \<open>
  The calls of one model's attempts, from attempt \<open>a\<close> on, for given answers of the
  backend and of the file system: a failed call is one event, an answered call is
  followed by the write of its debug file.
\<close>

fun attemptEvents :: "request \<Rightarrow> nat \<Rightarrow> (string option \<times> bool) list \<Rightarrow> event list" where
  "attemptEvents req a [] = []"
| "attemptEvents req a ((None, saved) # rest) =
     EvGenerate req None # attemptEvents req (a + 1) rest"
| "attemptEvents req a ((Some raw, saved) # rest) =
     EvGenerate req (Some raw)
       # EvWriteFile RawResponse (rawResponseName (Model req) a) (normalize raw) saved
       # attemptEvents req (a + 1) rest"

text \<open>The attempt-by-model matrix of requests: three attempts for each model, in order.\<close>

definition requestMatrix :: "request \<Rightarrow> string list \<Rightarrow> request list" where
  "requestMatrix req models = concat (map (\<lambda>m. replicate 3 (req\<lparr>Model := m\<rparr>)) models)"

section \<open>Worlds for running the program on examples\<close>

text \<open>
  A world that is the list of the answers the backend still has to give (an exhausted
  list answers with an error); every other call succeeds with a fixed answer, and the
  three tools answer as given, the compiler by the name of the source file.
\<close>

definition scriptedGenerate :: "request \<Rightarrow> string option list \<Rightarrow> string option \<times> string option list" where
  "scriptedGenerate req w = (case w of [] \<Rightarrow> (None, []) | answer # rest \<Rightarrow> (answer, rest))"

definition stubEnv :: "string list \<Rightarrow> (string \<times> string) list \<Rightarrow> (string \<Rightarrow> bool \<times> string) \<Rightarrow> bool \<times> string \<Rightarrow> bool \<times> string \<Rightarrow> (string option list) env" where
  "stubEnv names files compileResult runResult gcovResult =
     \<lparr>clientList = (\<lambda>w. (Some names, w)),
      clientGenerate = scriptedGenerate,
      osWriteFile = (\<lambda>name data w. (True, w)),
      osReadFile = (\<lambda>name w. (Some ''int f();'', w)),
      osStat = (\<lambda>name w. (StatOk, w)),
      osMkdirTemp = (\<lambda>w. (Some ''/tmp/unit-test-generator-1'', w)),
      osRemoveAll = (\<lambda>name w. ((), w)),
      execCompile = (\<lambda>dir test src w. (compileResult src, w)),
      execRunTests = (\<lambda>bin w. (runResult, w)),
      execGcov = (\<lambda>dir src w. (gcovResult, w)),
      urlParse = (\<lambda>w. (True, w)),
      walkCodebase = (\<lambda>w. (Some files, w)),
      osMkdirAll = (\<lambda>name w. (True, w))\<rparr>"

definition start :: "string option list \<Rightarrow> (string option list) state" where
  "start answers = \<lparr>world = answers, trace = []\<rparr>"

definition nl :: string where
  "nl = [CHR 0x0A]"

text \<open>A text that passes every check: the four includes and four complete tests.\<close>

definition goodTests :: string where
  "goodTests =
     inc_gtest @ nl @ inc_cmath @ nl @ inc_stdexcept @ nl @ inc_example @ nl @
     ''TEST(CalculatorTest, Add_PositiveNumbers) {'' @ nl @
     ''    Calculator calc;'' @ nl @
     ''    EXPECT_EQ(calc.add(2, 3), 5);'' @ nl @
     ''}'' @ nl @
     ''TEST(CalculatorTest, Add_NegativeNumbers) {'' @ nl @
     ''    Calculator calc;'' @ nl @
     ''    EXPECT_EQ(calc.add(-2, -3), -5);'' @ nl @
     ''}'' @ nl @
     ''TEST(CalculatorTest, Subtract_PositiveNumbers) {'' @ nl @
     ''    Calculator calc;'' @ nl @
     ''    EXPECT_EQ(calc.subtract(5, 3), 2);'' @ nl @
     ''}'' @ nl @
     ''TEST(CalculatorTest, Subtract_NegativeNumbers) {'' @ nl @
     ''    Calculator calc;'' @ nl @
     ''    EXPECT_EQ(calc.subtract(-5, -3), -2);'' @ nl @
     ''}''"

text \<open>
  The good text followed by a test that is opened and never closed, and by a fifth
  complete test.
\<close>

definition openEnded :: string where
  "openEnded = goodTests @ nl @ ''TEST(CalculatorTest, Extra) {''"

definition fiveTests :: string where
  "fiveTests = goodTests @ nl @ ''TEST(CalculatorTest, Extra) { EXPECT_EQ(1, 1); }''"

text \<open>
  Three units, of which the second does not compile; a tool chain that reports 80 per
  cent; and one whose coverage tool prints no report.
\<close>

definition exampleFiles :: "(string \<times> string) list" where
  "exampleFiles =
     [(''codebase/calc.cpp'', ''int add(int a, int b) { return a + b; }''),
      (''codebase/bad.cpp'', ''int f( {''),
      (''codebase/util.cpp'', ''int subtract(int a, int b) { return a - b; }'')]"

definition exampleCompiler :: "string \<Rightarrow> bool \<times> string" where
  "exampleCompiler src = (if src = ''bad.cpp'' then (False, ''error'') else (True, []))"

definition exampleEnv :: "(string option list) env" where
  "exampleEnv = stubEnv [''m2''] exampleFiles exampleCompiler (True, [])
                  (True, ''Lines executed:80.00% of 100'')"

definition brokenGcovEnv :: "(string option list) env" where
  "brokenGcovEnv = stubEnv [''m2''] exampleFiles exampleCompiler (True, []) (True, ''no report'')"

text \<open>
  The backend fails once, then answers with a text that is too short, then with the
  good text.
\<close>

definition exampleAnswers :: "string option list" where
  "exampleAnswers = [None, Some ''no tests'', Some goodTests]"

definition afterExample :: "(string option list) state" where
  "afterExample =
     \<lparr>world = [],
      trace = [EvList (Some [''m2'']),
               EvGenerate (buildRequest ''m1'' ''code'') None,
               EvGenerate (buildRequest ''m1'' ''code'') (Some ''no tests''),
               EvWriteFile RawResponse ''raw_response_m1_attempt_2.txt'' ''no tests'' True,
               EvGenerate (buildRequest ''m1'' ''code'') (Some goodTests),
               EvWriteFile RawResponse ''raw_response_m1_attempt_3.txt'' goodTests True]\<rparr>"

definition afterFailures :: "(string option list) state" where
  "afterFailures =
     \<lparr>world = [],
      trace = [EvList (Some [''m2'']),
               EvGenerate (buildRequest ''m1'' ''code'') None,
               EvGenerate (buildRequest ''m1'' ''code'') None,
               EvGenerate (buildRequest ''m1'' ''code'') None,
               EvGenerate (buildRequest ''m2'' ''code'') None,
               EvGenerate (buildRequest ''m2'' ''code'') None,
               EvGenerate (buildRequest ''m2'' ''code'') None]\<rparr>"


definition calcRun :: "outcome \<times> (string option list) state" where
  "calcRun = processUnit exampleEnv (''codebase/calc.cpp'', ''code'') (start [Some goodTests])"

definition brokenRun :: "outcome \<times> (string option list) state" where
  "brokenRun = processUnit brokenGcovEnv (''codebase/calc.cpp'', ''code'') (start [Some goodTests])"

definition brokenCoverage :: "outcome3 \<times> (string option list) state" where
  "brokenCoverage = runTestsAndCoverage brokenGcovEnv goodTests ''codebase/calc.cpp'' (start [])"





definition requiredIncludes :: "string list" where
  "requiredIncludes = [inc_gtest, inc_cmath, inc_stdexcept, inc_example]"

text \<open>
  The two checks that the source makes with regular expressions, in the words of the
  specification. A text ends in an open test body when it can be cut into a part before,
  the header \<open>TEST(\<close> with at least one byte other than \<open>)\<close> up to the \<open>)\<close>, blanks,
  an opening brace, and a rest up to the end of the text that has no closing brace. The
  number of test declarations is the number of places where \<open>TEST(CalculatorTest,\<close>
  starts.
\<close>

definition blanks :: "char set" where
  "blanks = {CHR 0x09, CHR 0x0A, CHR 0x0C, CHR 0x0D, CHR 0x20}"

definition openTestBody :: "string \<Rightarrow> bool" where
  "openTestBody s =
     (\<exists>pre args ws body.
        s = pre @ ''TEST('' @ args @ '')'' @ ws @ ''{'' @ body \<and>
        args \<noteq> [] \<and> CHR '')'' \<notin> set args \<and> set ws \<subseteq> blanks \<and> CHR ''}'' \<notin> set body)"

definition declarationPattern :: string where
  "declarationPattern = ''TEST(CalculatorTest,''"

definition declarationCount :: "string \<Rightarrow> nat" where
  "declarationCount s = card {a. \<exists>b. s = a @ declarationPattern @ b}"

fun occurrences :: "string \<Rightarrow> string \<Rightarrow> nat" where
  "occurrences p [] = 0"
| "occurrences p (c # s) = (if HasPrefix (c # s) p then 1 else 0) + occurrences p s"

definition checkThat :: "bool \<Rightarrow> reason \<Rightarrow> reason option" where
  "checkThat holds r = (if holds then None else Some r)"

definition ruleChain :: "(string \<Rightarrow> reason option) list" where
  "ruleChain =
     [\<lambda>s. checkThat (250 \<le> length s) (TooShort (length s)),
      \<lambda>s. checkThat (Contains s inc_gtest) (MissingInclude inc_gtest),
      \<lambda>s. checkThat (Contains s inc_cmath) (MissingInclude inc_cmath),
      \<lambda>s. checkThat (Contains s inc_stdexcept) (MissingInclude inc_stdexcept),
      \<lambda>s. checkThat (Contains s inc_example) (MissingInclude inc_example),
      \<lambda>s. checkThat (Contains s ''TEST'') MissingTESTMacro,
      \<lambda>s. checkThat (\<not> openTestBody s) IncompleteTESTMacro,
      \<lambda>s. checkThat (declarationCount s = 4) (WrongTestCount (declarationCount s)),
      \<lambda>s. checkThat (\<forall>m \<in> set methods. Contains s (m @ ''('')) (MissingMethods (missingMethods s)),
      \<lambda>s. checkThat (count_list s CHR ''{'' = count_list s CHR ''}'')
             (UnbalancedBraces (int (count_list s CHR ''{'') - int (count_list s CHR ''}'')))]"

fun firstViolation :: "(string \<Rightarrow> reason option) list \<Rightarrow> string \<Rightarrow> reason option" where
  "firstViolation [] s = None"
| "firstViolation (rule # rules) s =
     (case rule s of Some r \<Rightarrow> Some r | None \<Rightarrow> firstViolation rules s)"

definition validatorSpec :: "string \<Rightarrow> verdict" where
  "validatorSpec s = (case firstViolation ruleChain s of None \<Rightarrow> Accepted s | Some r \<Rightarrow> Rejected r)"

definition attemptsShape :: "nat \<Rightarrow> string option \<Rightarrow> (string option \<times> bool) list \<Rightarrow> bool" where
  "attemptsShape n res answers =
     (case res of
        None \<Rightarrow> length answers = n \<and> (\<forall>x \<in> set answers. \<not> acceptedAnswer (fst x))
      | Some output \<Rightarrow>
          answers \<noteq> [] \<and> length answers \<le> n \<and>
          (\<exists>raw. fst (last answers) = Some raw \<and> normalize raw = output \<and>
                 validate output = Accepted output) \<and>
          (\<forall>x \<in> set (butlast answers). \<not> acceptedAnswer (fst x)))"

fun matrixEvents :: "request \<Rightarrow> string list \<Rightarrow> (string option \<times> bool) list list \<Rightarrow> event list" where
  "matrixEvents req [] ass = []"
| "matrixEvents req (m # ms) [] = []"
| "matrixEvents req (m # ms) (as # ass) =
     attemptEvents (req\<lparr>Model := m\<rparr>) 1 as @ matrixEvents req ms ass"

definition matrixShape :: "nat \<Rightarrow> string option \<Rightarrow> (string option \<times> bool) list list \<Rightarrow> bool" where
  "matrixShape n res ass =
     (case res of
        None \<Rightarrow> length ass = n \<and> (\<forall>as \<in> set ass. attemptsShape 3 None as)
      | Some output \<Rightarrow>
          ass \<noteq> [] \<and> length ass \<le> n \<and> attemptsShape 3 (Some output) (last ass) \<and>
          (\<forall>as \<in> set (butlast ass). attemptsShape 3 None as))"

definition regular :: "(string option \<times> bool) list list \<Rightarrow> bool" where
  "regular ass = ((\<forall>as \<in> set (butlast ass). length as = 3) \<and> (ass \<noteq> [] \<longrightarrow> length (last ass) \<le> 3))"

fun debugArtifacts :: "nat \<Rightarrow> (request \<times> string option) list \<Rightarrow> (string \<times> string) list" where
  "debugArtifacts k [] = []"
| "debugArtifacts k ((req, None) # calls) = debugArtifacts (k + 1) calls"
| "debugArtifacts k ((req, Some raw) # calls) =
     (rawResponseName (Model req) (k mod 3 + 1), normalize raw) # debugArtifacts (k + 1) calls"

definition isTool :: "event \<Rightarrow> bool" where
  "isTool ev = (case ev of EvCompile d r \<Rightarrow> True | EvRunTests b r \<Rightarrow> True | EvGcov n r \<Rightarrow> True | _ \<Rightarrow> False)"

definition toolCalls :: "event list \<Rightarrow> event list" where
  "toolCalls evs = filter isTool evs"

definition grows :: "'w state \<Rightarrow> 'w state \<Rightarrow> bool" where
  "grows \<sigma> \<sigma>' = (trace \<sigma>' = trace \<sigma> @ newEvents \<sigma> \<sigma>')"

definition earlyFailure :: "outcome3 \<Rightarrow> bool" where
  "earlyFailure res =
     (res = (False, 0, Some MkdirTempFailed) \<or> res = (False, 0, Some WriteTestFailed) \<or>
      res = (False, 0, Some CopySourceFailed) \<or> res = (False, 0, Some CopyHeaderFailed))"

definition runShape :: "outcome3 \<Rightarrow> event list \<Rightarrow> bool" where
  "runShape res tools =
     ((tools = [] \<and> earlyFailure res) \<or>
      (\<exists>d co. tools = [EvCompile d (False, co)] \<and> res = (False, 0, Some (CompilationFailed co))) \<or>
      (\<exists>d co b ro. tools = [EvCompile d (True, co), EvRunTests b (False, ro)] \<and>
          res = (False, 0, Some (TestsFailed ro))) \<or>
      (\<exists>d co b ro n report.
          tools = [EvCompile d (True, co), EvRunTests b (True, ro), EvGcov n (False, report)] \<and>
          res = (True, 0, Some (GcovFailed report))) \<or>
      (\<exists>d co b ro n report.
          tools = [EvCompile d (True, co), EvRunTests b (True, ro), EvGcov n (True, report)] \<and>
          res = coverageGate report))"

text \<open>An event of the sandbox that is neither a tool nor a call to the backend.\<close>

definition quiet :: "event list \<Rightarrow> bool" where
  "quiet evs = (toolCalls evs = [] \<and> genCalls evs = [] \<and> writesAt TestsDir evs = [] \<and>
                writesAt RawResponse evs = [])"

text \<open>What a run of one unit leaves in the tests directory, and when.\<close>

definition persistedBy :: "string \<Rightarrow> outcome \<Rightarrow> event list \<Rightarrow> bool" where
  "persistedBy filePath out evs =
     (\<exists>tests saved d co b ro n report m cov req raw.
        writesAt TestsDir evs = [(testFileOf filePath, tests)] \<and>
        last evs = EvWriteFile TestsDir (testFileOf filePath) tests saved \<and>
        out = (if saved then Persisted (testFileOf filePath) cov else WriteFailed (testFileOf filePath)) \<and>
        (req, Some raw) \<in> set (genCalls evs) \<and> normalize raw = tests \<and>
        validate tests = Accepted tests \<and>
        toolCalls evs = [EvCompile d (True, co), EvRunTests b (True, ro), EvGcov n (True, report)] \<and>
        FindCoverage report = Some m \<and> ParseFloat m = Some cov \<and> 80 \<le> cov)"

definition notPersisted :: "outcome \<Rightarrow> bool" where
  "notPersisted out =
     (case out of Persisted p c \<Rightarrow> False | WriteFailed p \<Rightarrow> False | _ \<Rightarrow> True)"

section \<open>Facts about the strings and the checks\<close>

lemma HasPrefix_iff: "HasPrefix s p \<longleftrightarrow> (\<exists>t. s = p @ t)"
  by (induction s p rule: HasPrefix.induct) auto

lemma HasPrefix_append [simp]: "HasPrefix (p @ t) p"
  by (simp add: HasPrefix_iff)

lemma Contains_iff: "Contains s sub \<longleftrightarrow> (\<exists>a b. s = a @ sub @ b)"
proof (induction s)
  case Nil
  show ?case by auto
next
  case (Cons c s)
  show ?case
  proof
    assume "Contains (c # s) sub"
    then consider "HasPrefix (c # s) sub" | "Contains s sub" by auto
    then show "\<exists>a b. c # s = a @ sub @ b"
    proof cases
      case 1
      then obtain t where "c # s = sub @ t" by (auto simp: HasPrefix_iff)
      then have "c # s = [] @ sub @ t" by simp
      then show ?thesis by blast
    next
      case 2
      then obtain a b where "s = a @ sub @ b" using Cons.IH by auto
      then have "c # s = (c # a) @ sub @ b" by simp
      then show ?thesis by blast
    qed
  next
    assume "\<exists>a b. c # s = a @ sub @ b"
    then obtain a b where ab: "c # s = a @ sub @ b" by auto
    show "Contains (c # s) sub"
    proof (cases a)
      case Nil
      with ab have "HasPrefix (c # s) sub" by (auto simp: HasPrefix_iff)
      then show ?thesis by simp
    next
      case (Cons x a')
      with ab have "s = a' @ sub @ b" by simp
      then have "Contains s sub" using Cons.IH by blast
      then show ?thesis by simp
    qed
  qed
qed

lemma fold_braceStep: "fold braceStep s n = n + int (count_list s CHR ''{'') - int (count_list s CHR ''}'')"
  by (induction s arbitrary: n) (auto simp: braceStep_def)

lemma braceCount_eq: "braceCount s = int (count_list s CHR ''{'') - int (count_list s CHR ''}'')"
  by (simp add: braceCount_def fold_braceStep)

lemma braceCount_zero_iff: "braceCount s = 0 \<longleftrightarrow> count_list s CHR ''{'' = count_list s CHR ''}''"
  by (simp add: braceCount_eq)

lemma missingMethods_empty_iff: "missingMethods s = [] \<longleftrightarrow> (\<forall>m \<in> set methods. Contains s (m @ ''(''))"
  by (auto simp: missingMethods_def filter_empty_conv)

lemma validate_Accepted_same: "validate s = Accepted t \<Longrightarrow> t = s"
  by (auto simp: validate_def split: if_splits)

lemma reSpace_blanks: "reSpace c \<longleftrightarrow> c \<in> blanks"
  by (auto simp: reSpace_def blanks_def)

lemma split_at_first:
  "dropWhile P r = x # rest \<Longrightarrow> r = takeWhile P r @ x # rest \<and> \<not> P x"
  by (metis dropWhile_eq_Cons_conv takeWhile_dropWhile_id)

lemma takeWhile_until: "y \<notin> set xs \<Longrightarrow> takeWhile (\<lambda>c. c \<noteq> y) (xs @ y # ys) = xs"
  by (induction xs) auto

lemma dropWhile_until: "y \<notin> set xs \<Longrightarrow> dropWhile (\<lambda>c. c \<noteq> y) (xs @ y # ys) = y # ys"
  by (induction xs) auto

lemma dropWhile_all: "\<forall>c \<in> set ws. P c \<Longrightarrow> \<not> P y \<Longrightarrow> dropWhile P (ws @ y # ys) = y # ys"
  by (induction ws) auto

lemma incompleteAt_iff:
  "incompleteAt s \<longleftrightarrow>
     (\<exists>args ws body.
        s = ''TEST('' @ args @ '')'' @ ws @ ''{'' @ body \<and>
        args \<noteq> [] \<and> CHR '')'' \<notin> set args \<and> set ws \<subseteq> blanks \<and> CHR ''}'' \<notin> set body)"
proof
  assume a: "incompleteAt s"
  then obtain r where s: "s = ''TEST('' @ r" by (auto simp: incompleteAt_def HasPrefix_iff)
  then have d: "drop 5 s = r" by simp
  let ?args = "takeWhile (\<lambda>c. c \<noteq> CHR '')'') r"
  from a d have n: "?args \<noteq> []" by (simp add: incompleteAt_def Let_def)
  from a d obtain x r1 where r1: "dropWhile (\<lambda>c. c \<noteq> CHR '')'') r = x # r1"
    by (auto simp: incompleteAt_def Let_def split: list.splits)
  from split_at_first [OF r1] have x: "x = CHR '')''" by simp
  from split_at_first [OF r1] have "r = ?args @ x # r1" by (rule conjunct1)
  then have r: "r = ?args @ CHR '')'' # r1" unfolding x .
  from a d r1 obtain b body where b: "dropWhile reSpace r1 = b # body"
    and body: "b = CHR ''{''" "CHR ''}'' \<notin> set body"
    by (auto simp: incompleteAt_def Let_def split: list.splits)
  from split_at_first [OF b] have "r1 = takeWhile reSpace r1 @ b # body" by (rule conjunct1)
  then have r1': "r1 = takeWhile reSpace r1 @ CHR ''{'' # body" unfolding body(1) .
  have "s = ''TEST('' @ ?args @ '')'' @ takeWhile reSpace r1 @ ''{'' @ body"
    using s r r1' by simp
  moreover have "CHR '')'' \<notin> set ?args" by (auto dest: set_takeWhileD)
  moreover have "set (takeWhile reSpace r1) \<subseteq> blanks"
    by (auto dest: set_takeWhileD simp: reSpace_blanks)
  ultimately show "\<exists>args ws body.
        s = ''TEST('' @ args @ '')'' @ ws @ ''{'' @ body \<and>
        args \<noteq> [] \<and> CHR '')'' \<notin> set args \<and> set ws \<subseteq> blanks \<and> CHR ''}'' \<notin> set body"
    using n body(2) by blast
next
  assume "\<exists>args ws body.
        s = ''TEST('' @ args @ '')'' @ ws @ ''{'' @ body \<and>
        args \<noteq> [] \<and> CHR '')'' \<notin> set args \<and> set ws \<subseteq> blanks \<and> CHR ''}'' \<notin> set body"
  then obtain args ws body where s: "s = ''TEST('' @ args @ '')'' @ ws @ ''{'' @ body"
    and p: "args \<noteq> []" "CHR '')'' \<notin> set args" "set ws \<subseteq> blanks" "CHR ''}'' \<notin> set body"
    by blast
  have d: "drop 5 s = args @ CHR '')'' # (ws @ CHR ''{'' # body)" using s by simp
  have t: "takeWhile (\<lambda>c. c \<noteq> CHR '')'') (args @ CHR '')'' # (ws @ CHR ''{'' # body)) = args"
    using p(2) by (rule takeWhile_until)
  have dw: "dropWhile (\<lambda>c. c \<noteq> CHR '')'') (args @ CHR '')'' # (ws @ CHR ''{'' # body))
      = CHR '')'' # (ws @ CHR ''{'' # body)"
    using p(2) by (rule dropWhile_until)
  have w: "\<forall>c \<in> set ws. reSpace c" using p(3) by (auto simp: reSpace_blanks)
  have dw2: "dropWhile reSpace (ws @ CHR ''{'' # body) = CHR ''{'' # body"
    using w by (rule dropWhile_all) (simp add: reSpace_def)
  have "HasPrefix s ''TEST(''" using s by (simp add: HasPrefix_iff)
  then show "incompleteAt s"
    unfolding incompleteAt_def Let_def d t dw using p(1,4) dw2 by simp
qed

lemma incompleteTEST_suffix: "incompleteTEST s \<longleftrightarrow> (\<exists>pre t. s = pre @ t \<and> incompleteAt t)"
proof (induction s)
  case Nil
  show ?case by simp
next
  case (Cons c s)
  show ?case
  proof
    assume "incompleteTEST (c # s)"
    then consider "incompleteAt (c # s)" | "incompleteTEST s" by auto
    then show "\<exists>pre t. c # s = pre @ t \<and> incompleteAt t"
    proof cases
      case 1
      then have "c # s = [] @ (c # s) \<and> incompleteAt (c # s)" by simp
      then show ?thesis by blast
    next
      case 2
      with Cons.IH obtain pre t where "s = pre @ t" "incompleteAt t" by blast
      then have "c # s = (c # pre) @ t \<and> incompleteAt t" by simp
      then show ?thesis by blast
    qed
  next
    assume "\<exists>pre t. c # s = pre @ t \<and> incompleteAt t"
    then obtain pre t where e: "c # s = pre @ t" and i: "incompleteAt t" by blast
    show "incompleteTEST (c # s)"
    proof (cases pre)
      case Nil
      with e have "t = c # s" by simp
      with i have "incompleteAt (c # s)" by simp
      then show ?thesis by simp
    next
      case (Cons x pre')
      with e have "s = pre' @ t" by simp
      with i Cons.IH have "incompleteTEST s" by blast
      then show ?thesis by simp
    qed
  qed
qed

lemma incompleteTEST_iff: "incompleteTEST s \<longleftrightarrow> openTestBody s"
proof
  assume "incompleteTEST s"
  then obtain pre t where s: "s = pre @ t" and "incompleteAt t"
    by (auto simp: incompleteTEST_suffix)
  then obtain args ws body where "t = ''TEST('' @ args @ '')'' @ ws @ ''{'' @ body"
    "args \<noteq> []" "CHR '')'' \<notin> set args" "set ws \<subseteq> blanks" "CHR ''}'' \<notin> set body"
    unfolding incompleteAt_iff by blast
  with s show "openTestBody s" unfolding openTestBody_def by blast
next
  assume "openTestBody s"
  then obtain pre args ws body where s: "s = pre @ ''TEST('' @ args @ '')'' @ ws @ ''{'' @ body"
    and p: "args \<noteq> []" "CHR '')'' \<notin> set args" "set ws \<subseteq> blanks" "CHR ''}'' \<notin> set body"
    unfolding openTestBody_def by blast
  from p have "incompleteAt (''TEST('' @ args @ '')'' @ ws @ ''{'' @ body)"
    unfolding incompleteAt_iff by blast
  with s show "incompleteTEST s" unfolding incompleteTEST_suffix by blast
qed

lemma finite_occurrence_starts: "finite {a. \<exists>b. s = a @ p @ b}"
proof -
  have "{a. \<exists>b. s = a @ p @ b} \<subseteq> (\<lambda>n. take n s) ` {..length s}"
  proof
    fix a assume "a \<in> {a. \<exists>b. s = a @ p @ b}"
    then obtain b where "s = a @ p @ b" by blast
    then have "a = take (length a) s" "length a \<le> length s" by simp_all
    then show "a \<in> (\<lambda>n. take n s) ` {..length s}" by blast
  qed
  then show ?thesis by (rule finite_subset) simp
qed

lemma occurrence_starts_Cons:
  "{a. \<exists>b. c # s = a @ p @ b}
     = (if HasPrefix (c # s) p then {[]} else {}) \<union> (\<lambda>a. c # a) ` {a. \<exists>b. s = a @ p @ b}"
proof (intro set_eqI iffI)
  fix a assume "a \<in> {a. \<exists>b. c # s = a @ p @ b}"
  then obtain b where e: "c # s = a @ p @ b" by blast
  show "a \<in> (if HasPrefix (c # s) p then {[]} else {}) \<union> (\<lambda>a. c # a) ` {a. \<exists>b. s = a @ p @ b}"
  proof (cases a)
    case Nil
    with e have "HasPrefix (c # s) p" by (auto simp: HasPrefix_iff)
    with Nil show ?thesis by simp
  next
    case (Cons x a')
    with e have "x = c" "s = a' @ p @ b" by simp_all
    with Cons show ?thesis by blast
  qed
next
  fix a assume "a \<in> (if HasPrefix (c # s) p then {[]} else {}) \<union> (\<lambda>a. c # a) ` {a. \<exists>b. s = a @ p @ b}"
  then consider "HasPrefix (c # s) p" "a = []" | a' b where "a = c # a'" "s = a' @ p @ b"
    by (auto split: if_splits)
  then show "a \<in> {a. \<exists>b. c # s = a @ p @ b}"
  proof cases
    case 1
    then show ?thesis by (auto simp: HasPrefix_iff)
  next
    case 2
    then have "c # s = a @ p @ b" by simp
    then show ?thesis by blast
  qed
qed

lemma occurrences_card: "p \<noteq> [] \<Longrightarrow> occurrences p s = card {a. \<exists>b. s = a @ p @ b}"
proof (induction s)
  case Nil
  then show ?case by simp
next
  case (Cons c s)
  let ?S = "{a. \<exists>b. s = a @ p @ b}"
  have f: "finite ((\<lambda>a. c # a) ` ?S)" using finite_occurrence_starts by (rule finite_imageI)
  have i: "card ((\<lambda>a. c # a) ` ?S) = card ?S" by (rule card_image) (simp add: inj_on_def)
  have n: "[] \<notin> (\<lambda>a. c # a) ` ?S" by auto
  show ?case
    unfolding occurrence_starts_Cons using Cons f i n by simp
qed

text \<open>
  A pattern whose last byte occurs nowhere else in it cannot overlap itself: inside an
  occurrence no other one starts.
\<close>

lemma no_overlap:
  assumes "z \<notin> set q" and "HasPrefix s (q @ [z])" and "0 < j" and "j \<le> length q"
  shows "\<not> HasPrefix (drop j s) (q @ [z])"
proof
  assume "HasPrefix (drop j s) (q @ [z])"
  then obtain t' where d: "drop j s = (q @ [z]) @ t'" by (auto simp: HasPrefix_iff)
  from assms(2) obtain t where s: "s = (q @ [z]) @ t" by (auto simp: HasPrefix_iff)
  have "s ! length q = z" unfolding s by (simp add: nth_append)
  moreover have "j + (length q - j) = length q" using assms(4) by simp
  moreover have "length q < length s" unfolding s by simp
  ultimately have "drop j s ! (length q - j) = z" using assms(4) by (simp add: nth_drop)
  moreover have "length q - j < length q" using assms(3,4) by simp
  then have "drop j s ! (length q - j) = q ! (length q - j)"
    unfolding d by (simp add: nth_append)
  ultimately have "q ! (length q - j) = z" by simp
  with \<open>length q - j < length q\<close> have "z \<in> set q" by (metis nth_mem)
  with assms(1) show False by simp
qed

lemma occurrences_drop:
  "(\<forall>j < k. \<not> HasPrefix (drop j s) p) \<Longrightarrow> p \<noteq> [] \<Longrightarrow> occurrences p (drop k s) = occurrences p s"
proof (induction k arbitrary: s)
  case 0
  show ?case by simp
next
  case (Suc k)
  show ?case
  proof (cases s)
    case Nil
    then show ?thesis by simp
  next
    case (Cons c s')
    from Suc.prems(1) have "\<not> HasPrefix (drop 0 s) p" by blast
    then have h: "\<not> HasPrefix (c # s') p" using Cons by simp
    have "\<forall>j < k. \<not> HasPrefix (drop j s') p"
    proof (intro allI impI)
      fix j assume "j < k"
      then have "Suc j < Suc k" by simp
      with Suc.prems(1) have "\<not> HasPrefix (drop (Suc j) s) p" by blast
      then show "\<not> HasPrefix (drop j s') p" using Cons by simp
    qed
    from Suc.IH [OF this Suc.prems(2)] h Cons show ?thesis by simp
  qed
qed

lemma countMatches_occurrences:
  assumes "z \<notin> set q"
  shows "(\<forall>j < k. \<not> HasPrefix (drop j s) (q @ [z])) \<Longrightarrow>
         countMatches (q @ [z]) k s = occurrences (q @ [z]) s"
proof (induction s arbitrary: k)
  case Nil
  show ?case by simp
next
  case (Cons c s)
  let ?p = "q @ [z]"
  show ?case
  proof (cases "0 < k")
    case True
    then obtain k' where k: "k = Suc k'" by (cases k) simp_all
    have n: "\<forall>j < k'. \<not> HasPrefix (drop j s) ?p"
    proof (intro allI impI)
      fix j assume "j < k'"
      with k have "Suc j < k" by simp
      with Cons.prems have "\<not> HasPrefix (drop (Suc j) (c # s)) ?p" by blast
      then show "\<not> HasPrefix (drop j s) ?p" by simp
    qed
    from Cons.prems True have "\<not> HasPrefix (drop 0 (c # s)) ?p" by blast
    then have "\<not> HasPrefix (c # s) ?p" by simp
    with Cons.IH [OF n] k show ?thesis by simp
  next
    case False
    then have k: "k = 0" by simp
    show ?thesis
    proof (cases "HasPrefix (c # s) ?p")
      case True
      have n: "\<forall>j < length q. \<not> HasPrefix (drop j s) ?p"
      proof (intro allI impI)
        fix j assume "j < length q"
        then have "\<not> HasPrefix (drop (Suc j) (c # s)) ?p"
          using no_overlap [OF assms True, of "Suc j"] by simp
        then show "\<not> HasPrefix (drop j s) ?p" by simp
      qed
      have "countMatches ?p (length q) s = occurrences ?p s" using Cons.IH [OF n] .
      with True k show ?thesis by simp
    next
      case False
      have "\<forall>j < (0::nat). \<not> HasPrefix (drop j s) ?p" by simp
      from Cons.IH [OF this] False k show ?thesis by simp
    qed
  qed
qed

lemma testCount_iff: "testCount s = declarationCount s"
proof -
  have p: "declarationPattern = ''TEST(CalculatorTest'' @ [CHR '','']"
    by (simp add: declarationPattern_def)
  have z: "CHR '','' \<notin> set ''TEST(CalculatorTest''" by simp
  have "testCount s = countMatches declarationPattern 0 s"
    by (simp add: testCount_def declarationPattern_def)
  also have "\<dots> = occurrences declarationPattern s"
    unfolding p using z by (rule countMatches_occurrences) simp
  also have "\<dots> = declarationCount s"
    unfolding declarationCount_def by (rule occurrences_card) (simp add: declarationPattern_def)
  finally show ?thesis .
qed

lemma validate_eq_spec: "validate s = validatorSpec s"
  by (simp add: validate_def validatorSpec_def ruleChain_def checkThat_def
      braceCount_eq missingMethods_empty_iff [symmetric] incompleteTEST_iff testCount_iff
      del: length_greater_0_conv)

lemma Contains_set: "Contains s sub \<Longrightarrow> set sub \<subseteq> set s"
  by (auto simp: Contains_iff)

lemma call_eq:
  "call f ev \<sigma> = (r, \<sigma>') \<longleftrightarrow>
     r = fst (f (world \<sigma>)) \<and> \<sigma>' = \<lparr>world = snd (f (world \<sigma>)), trace = trace \<sigma> @ [ev r]\<rparr>"
  by (auto simp: call_def split: prod.splits)

lemma call_trace: "call f ev \<sigma> = (r, \<sigma>') \<Longrightarrow> trace \<sigma>' = trace \<sigma> @ [ev r]"
  by (simp add: call_eq)

lemma attemptsShape_fail_step:
  "\<not> acceptedAnswer g \<Longrightarrow> attemptsShape n res answers \<Longrightarrow>
   attemptsShape (Suc n) res ((g, saved) # answers)"
  by (cases res) (auto simp: attemptsShape_def butlast_def split: if_splits)

lemma attemptLoop_shape:
  "attemptLoop E req a \<sigma> = (res, \<sigma>') \<Longrightarrow>
   \<exists>answers. trace \<sigma>' = trace \<sigma> @ attemptEvents req a answers \<and>
             attemptsShape (4 - a) res answers"
proof (induction E req a \<sigma> arbitrary: res \<sigma>' rule: attemptLoop.induct)
  case (1 E req attempt \<sigma>)
  show ?case
  proof (cases "attempt \<le> 3")
    case False
    with "1.prems" have "res = None" "\<sigma>' = \<sigma>" by (simp_all split: if_splits)
    moreover from False have "4 - attempt = 0" by simp
    ultimately have "trace \<sigma>' = trace \<sigma> @ attemptEvents req attempt [] \<and>
        attemptsShape (4 - attempt) res []"
      by (simp add: attemptsShape_def)
    then show ?thesis by blast
  next
    case le: True
    then have suc: "4 - attempt = Suc (4 - (attempt + 1))" by simp
    obtain g \<sigma>1 where c1: "call (clientGenerate E req) (EvGenerate req) \<sigma> = (g, \<sigma>1)"
      by (cases "call (clientGenerate E req) (EvGenerate req) \<sigma>")
    have t1: "trace \<sigma>1 = trace \<sigma> @ [EvGenerate req g]" using c1 by (rule call_trace)
    show ?thesis
    proof (cases g)
      case None
      with "1.prems" le c1 have rec: "attemptLoop E req (attempt + 1) \<sigma>1 = (res, \<sigma>')" by simp
      from "1.IH"(1) [OF le c1 [symmetric, unfolded None] refl rec [unfolded None]] None
      obtain answers where a: "trace \<sigma>' = trace \<sigma>1 @ attemptEvents req (attempt + 1) answers"
        "attemptsShape (4 - (attempt + 1)) res answers" by auto
      have "\<not> acceptedAnswer g" using None by (simp add: acceptedAnswer_def)
      then have "attemptsShape (4 - attempt) res ((g, False) # answers)"
        unfolding suc using a(2) by (rule attemptsShape_fail_step)
      moreover have "trace \<sigma>' = trace \<sigma> @ attemptEvents req attempt ((g, False) # answers)"
        using a(1) t1 None by simp
      ultimately show ?thesis by blast
    next
      case (Some raw)
      obtain saved \<sigma>2 where c2:
        "call (osWriteFile E (rawResponseName (Model req) attempt) (normalize raw))
              (EvWriteFile RawResponse (rawResponseName (Model req) attempt) (normalize raw)) \<sigma>1
         = (saved, \<sigma>2)"
        by (cases "call (osWriteFile E (rawResponseName (Model req) attempt) (normalize raw))
              (EvWriteFile RawResponse (rawResponseName (Model req) attempt) (normalize raw)) \<sigma>1")
      have t2: "trace \<sigma>2 = trace \<sigma> @ attemptEvents req attempt [(g, saved)]"
        using call_trace [OF c2] t1 Some by simp
      show ?thesis
      proof (cases "validate (normalize raw)")
        case (Accepted out)
        with "1.prems" le c1 c2 Some have r: "res = Some out" "\<sigma>' = \<sigma>2" by simp_all
        have "out = normalize raw" using Accepted by (rule validate_Accepted_same)
        with Accepted Some have "attemptsShape (4 - attempt) res [(g, saved)]"
          using le by (simp add: attemptsShape_def r)
        with t2 r show ?thesis by blast
      next
        case (Rejected why)
        with "1.prems" le c1 c2 Some have rec: "attemptLoop E req (attempt + 1) \<sigma>2 = (res, \<sigma>')"
          by simp
        from "1.IH"(2) [OF le c1 [symmetric, unfolded Some] refl c2 [symmetric] Rejected rec]
        obtain answers where a: "trace \<sigma>' = trace \<sigma>2 @ attemptEvents req (attempt + 1) answers"
          "attemptsShape (4 - (attempt + 1)) res answers" by auto
        have "\<not> acceptedAnswer g" using Some Rejected by (simp add: acceptedAnswer_def)
        then have "attemptsShape (4 - attempt) res ((g, saved) # answers)"
          unfolding suc using a(2) by (rule attemptsShape_fail_step)
        moreover have "trace \<sigma>' = trace \<sigma> @ attemptEvents req attempt ((g, saved) # answers)"
          using a(1) t2 Some by simp
        ultimately show ?thesis by blast
      qed
    qed
  qed
qed

lemma matrixEvents_no_answers [simp]: "matrixEvents req models [] = []"
  by (cases models) simp_all

lemma matrixEvents_Model [simp]:
  "matrixEvents (req\<lparr>Model := m\<rparr>) models ass = matrixEvents req models ass"
  by (induction req models ass rule: matrixEvents.induct) simp_all

lemma matrixShape_first:
  "attemptsShape 3 (Some out) answers \<Longrightarrow> matrixShape (Suc n) (Some out) [answers]"
  by (simp add: matrixShape_def)

lemma matrixShape_next:
  "attemptsShape 3 None answers \<Longrightarrow> matrixShape n res ass \<Longrightarrow>
   matrixShape (Suc n) res (answers # ass)"
  by (cases res) (auto simp: matrixShape_def butlast_def split: if_splits)

lemma modelLoop_shape:
  "modelLoop E req models \<sigma> = (res, \<sigma>') \<Longrightarrow>
   \<exists>ass. trace \<sigma>' = trace \<sigma> @ matrixEvents req models ass \<and>
         matrixShape (length models) res ass"
proof (induction models arbitrary: req \<sigma>)
  case Nil
  then have "trace \<sigma>' = trace \<sigma> @ matrixEvents req [] [] \<and> matrixShape (length ([]::string list)) res []"
    by (auto simp: matrixShape_def)
  then show ?case by blast
next
  case (Cons m ms)
  obtain r1 \<sigma>1 where a: "attemptLoop E (req\<lparr>Model := m\<rparr>) 1 \<sigma> = (r1, \<sigma>1)"
    by (cases "attemptLoop E (req\<lparr>Model := m\<rparr>) 1 \<sigma>")
  from attemptLoop_shape [OF a] obtain answers where
    t1: "trace \<sigma>1 = trace \<sigma> @ attemptEvents (req\<lparr>Model := m\<rparr>) 1 answers" and
    s1: "attemptsShape 3 r1 answers" by auto
  show ?case
  proof (cases r1)
    case (Some out)
    with Cons.prems a have r: "res = Some out" "\<sigma>' = \<sigma>1" by simp_all
    have "trace \<sigma>' = trace \<sigma> @ matrixEvents req (m # ms) [answers]" using t1 r by simp
    moreover have "matrixShape (length (m # ms)) res [answers]"
      using s1 Some r matrixShape_first by simp
    ultimately show ?thesis by blast
  next
    case None
    with Cons.prems a have rec: "modelLoop E (req\<lparr>Model := m\<rparr>) ms \<sigma>1 = (res, \<sigma>')" by simp
    from Cons.IH [OF rec] obtain ass where
      t2: "trace \<sigma>' = trace \<sigma>1 @ matrixEvents req ms ass" and
      s2: "matrixShape (length ms) res ass" by auto
    have "trace \<sigma>' = trace \<sigma> @ matrixEvents req (m # ms) (answers # ass)"
      using t1 t2 by simp
    moreover have "matrixShape (length (m # ms)) res (answers # ass)"
      using s1 s2 None matrixShape_next by simp
    ultimately show ?thesis by blast
  qed
qed

lemma genCalls_append: "genCalls (xs @ ys) = genCalls xs @ genCalls ys"
  by (induction xs rule: genCalls.induct) simp_all

lemma writesAt_append: "writesAt st (xs @ ys) = writesAt st xs @ writesAt st ys"
  by (induction st xs rule: writesAt.induct) simp_all

lemma genCalls_attemptEvents:
  "genCalls (attemptEvents req a answers) = map (\<lambda>x. (req, fst x)) answers"
  by (induction req a answers rule: attemptEvents.induct) simp_all

lemma newEvents_append: "trace \<sigma>' = trace \<sigma> @ evs \<Longrightarrow> newEvents \<sigma> \<sigma>' = evs"
  by (simp add: newEvents_def)

text \<open>What the shape of a run says about the list of generation calls.\<close>

lemma matrixShape_regular: "matrixShape n res ass \<Longrightarrow> regular ass \<and> length ass \<le> n"
  by (cases res) (auto simp: matrixShape_def regular_def attemptsShape_def dest: in_set_butlastD)

lemma regular_Cons:
  "regular (as # ass) \<Longrightarrow> length as \<le> 3 \<and> (ass \<noteq> [] \<longrightarrow> length as = 3) \<and> regular ass"
  by (auto simp: regular_def split: if_splits)

lemma genCalls_matrix_length:
  "regular ass \<Longrightarrow> length (genCalls (matrixEvents req models ass)) \<le> 3 * length models"
proof (induction req models ass rule: matrixEvents.induct)
  case (3 req m ms as ass)
  from regular_Cons [OF "3.prems"] "3.IH" show ?case
    by (simp add: genCalls_append genCalls_attemptEvents)
qed simp_all

lemma genCalls_matrix_exhausted:
  "matrixShape (length models) None ass \<Longrightarrow>
   length (genCalls (matrixEvents req models ass)) = 3 * length models \<and>
   (\<forall>c \<in> set (genCalls (matrixEvents req models ass)). \<not> acceptedAnswer (snd c))"
proof (induction req models ass rule: matrixEvents.induct)
  case (1 req ass)
  then show ?case by simp
next
  case (2 req m ms)
  then show ?case by (simp add: matrixShape_def)
next
  case (3 req m ms as ass)
  from "3.prems" have a: "attemptsShape 3 None as" and r: "matrixShape (length ms) None ass"
    by (auto simp: matrixShape_def)
  from a have "length as = 3" "\<forall>x \<in> set as. \<not> acceptedAnswer (fst x)"
    by (auto simp: attemptsShape_def)
  with "3.IH" [OF r] show ?case
    by (auto simp: genCalls_append genCalls_attemptEvents)
qed

lemma genCalls_matrix_accepted:
  "matrixShape (length models) (Some out) ass \<Longrightarrow>
   \<exists>earlier req' raw.
      genCalls (matrixEvents req models ass) = earlier @ [(req', Some raw)] \<and>
      normalize raw = out \<and> validate out = Accepted out \<and>
      (\<forall>c \<in> set earlier. \<not> acceptedAnswer (snd c))"
proof (induction req models ass rule: matrixEvents.induct)
  case (1 req ass)
  then show ?case by (auto simp: matrixShape_def)
next
  case (2 req m ms)
  then show ?case by (auto simp: matrixShape_def)
next
  case (3 req m ms as ass)
  let ?f = "\<lambda>x. (req\<lparr>Model := m\<rparr>, fst x)"
  show ?case
  proof (cases "ass = []")
    case True
    with "3.prems" have a: "attemptsShape 3 (Some out) as" by (simp add: matrixShape_def)
    then obtain raw where l: "as \<noteq> []" "fst (last as) = Some raw" "normalize raw = out"
      "validate out = Accepted out" "\<forall>x \<in> set (butlast as). \<not> acceptedAnswer (fst x)"
      by (auto simp: attemptsShape_def)
    from l(1) obtain bs b where bs: "as = bs @ [b]" by (metis append_butlast_last_id)
    have "genCalls (matrixEvents req (m # ms) (as # ass))
        = map ?f bs @ [(req\<lparr>Model := m\<rparr>, Some raw)]"
      using True l(2) bs by (simp add: genCalls_attemptEvents)
    moreover have "\<forall>c \<in> set (map ?f bs). \<not> acceptedAnswer (snd c)"
      using l(5) bs by auto
    ultimately show ?thesis using l(3,4) by blast
  next
    case False
    with "3.prems" have a: "attemptsShape 3 None as" and r: "matrixShape (length ms) (Some out) ass"
      by (auto simp: matrixShape_def split: if_splits)
    from "3.IH" [OF r] obtain earlier req' raw where
      e: "genCalls (matrixEvents req ms ass) = earlier @ [(req', Some raw)]"
         "normalize raw = out" "validate out = Accepted out"
         "\<forall>c \<in> set earlier. \<not> acceptedAnswer (snd c)" by auto
    have "genCalls (matrixEvents req (m # ms) (as # ass))
        = (map ?f as @ earlier) @ [(req', Some raw)]"
      using e(1) by (simp add: genCalls_append genCalls_attemptEvents)
    moreover have "\<forall>c \<in> set (map ?f as @ earlier). \<not> acceptedAnswer (snd c)"
      using a e(4) by (auto simp: attemptsShape_def)
    ultimately show ?thesis using e(2,3) by blast
  qed
qed

lemma genCalls_matrix_requests:
  "regular ass \<Longrightarrow> length ass \<le> length models \<Longrightarrow>
   map fst (genCalls (matrixEvents req models ass))
     = take (length (genCalls (matrixEvents req models ass))) (requestMatrix req models)"
proof (induction req models ass rule: matrixEvents.induct)
  case (3 req m ms as ass)
  from regular_Cons [OF "3.prems"(1)] have l: "length as \<le> 3" "ass \<noteq> [] \<longrightarrow> length as = 3"
    and r: "regular ass" by auto
  have f: "map fst (map (\<lambda>x. (req\<lparr>Model := m\<rparr>, fst x)) as) = replicate (length as) (req\<lparr>Model := m\<rparr>)"
    by (simp add: map_replicate_const comp_def)
  show ?case
  proof (cases "ass = []")
    case True
    then show ?thesis using l f
      by (simp add: genCalls_attemptEvents requestMatrix_def min_def comp_def map_replicate_const)
  next
    case False
    with l have "length as = 3" by simp
    moreover have "map fst (genCalls (matrixEvents req ms ass))
       = take (length (genCalls (matrixEvents req ms ass))) (requestMatrix req ms)"
      using "3.IH" r "3.prems"(2) by simp
    ultimately show ?thesis using f
      by (simp add: genCalls_append genCalls_attemptEvents requestMatrix_def comp_def map_replicate_const)
  qed
qed (simp_all add: requestMatrix_def)

lemma debugArtifacts_append:
  "debugArtifacts k (xs @ ys) = debugArtifacts k xs @ debugArtifacts (k + length xs) ys"
  by (induction k xs rule: debugArtifacts.induct) simp_all

lemma writesAt_attemptEvents_raw:
  "k mod 3 + 1 = a \<Longrightarrow> a + length answers \<le> 4 \<Longrightarrow>
   writesAt RawResponse (attemptEvents req a answers)
     = debugArtifacts k (map (\<lambda>x. (req, fst x)) answers)"
proof (induction req a answers arbitrary: k rule: attemptEvents.induct)
  case (1 req a)
  then show ?case by simp
next
  case (2 req a saved rest)
  show ?case
  proof (cases rest)
    case Nil
    then show ?thesis by simp
  next
    case (Cons x xs)
    with "2.prems" have "(k + 1) mod 3 + 1 = a + 1" by (simp add: mod_Suc)
    with "2.IH" [of "k + 1"] "2.prems" show ?thesis by simp
  qed
next
  case (3 req a raw saved rest)
  show ?case
  proof (cases rest)
    case Nil
    with "3.prems" show ?thesis by simp
  next
    case (Cons x xs)
    with "3.prems" have "(k + 1) mod 3 + 1 = a + 1" by (simp add: mod_Suc)
    with "3.IH" [of "k + 1"] "3.prems" show ?thesis by simp
  qed
qed

lemma writesAt_attemptEvents_other:
  "st \<noteq> RawResponse \<Longrightarrow> writesAt st (attemptEvents req a answers) = []"
  by (induction req a answers rule: attemptEvents.induct) simp_all

lemma writesAt_matrixEvents_other:
  "st \<noteq> RawResponse \<Longrightarrow> writesAt st (matrixEvents req models ass) = []"
  by (induction req models ass rule: matrixEvents.induct)
     (simp_all add: writesAt_append writesAt_attemptEvents_other)

lemma writesAt_matrixEvents_raw:
  "regular ass \<Longrightarrow> k mod 3 = 0 \<Longrightarrow>
   writesAt RawResponse (matrixEvents req models ass)
     = debugArtifacts k (genCalls (matrixEvents req models ass))"
proof (induction req models ass arbitrary: k rule: matrixEvents.induct)
  case (3 req m ms as ass)
  from regular_Cons [OF "3.prems"(1)] have l: "length as \<le> 3" "ass \<noteq> [] \<longrightarrow> length as = 3"
    and r: "regular ass" by auto
  have a: "writesAt RawResponse (attemptEvents (req\<lparr>Model := m\<rparr>) 1 as)
      = debugArtifacts k (map (\<lambda>x. (req\<lparr>Model := m\<rparr>, fst x)) as)"
    using "3.prems"(2) l(1) by (intro writesAt_attemptEvents_raw) simp_all
  show ?case
  proof (cases "ass = []")
    case True
    then show ?thesis using a by (simp add: genCalls_attemptEvents)
  next
    case False
    with l have "length as = 3" by simp
    then have "(k + length as) mod 3 = 0" using "3.prems"(2) by simp
    from "3.IH" [OF r this] a show ?thesis
      by (simp add: writesAt_append genCalls_append genCalls_attemptEvents debugArtifacts_append)
  qed
qed simp_all

lemma generate_events:
  assumes "generateUnitTests E model code \<sigma> = (res, \<sigma>')"
  shows "(fst (clientList E (world \<sigma>)) = None \<longrightarrow>
            res = Inl ListFailed \<and> newEvents \<sigma> \<sigma>' = [EvList None]) \<and>
         (\<forall>names. fst (clientList E (world \<sigma>)) = Some names \<longrightarrow>
            (\<exists>ass mres.
               newEvents \<sigma> \<sigma>' = EvList (Some names)
                  # matrixEvents (buildRequest model code) (availableModelsOf model names) ass \<and>
               matrixShape (length (availableModelsOf model names)) mres ass \<and>
               res = (case mres of None \<Rightarrow> Inl Exhausted | Some out \<Rightarrow> Inr out)))"
proof -
  obtain lst \<sigma>1 where c: "call (clientList E) EvList \<sigma> = (lst, \<sigma>1)"
    by (cases "call (clientList E) EvList \<sigma>")
  then have l: "lst = fst (clientList E (world \<sigma>))" and t1: "trace \<sigma>1 = trace \<sigma> @ [EvList lst]"
    by (simp_all add: call_eq)
  show ?thesis
  proof (cases lst)
    case None
    with assms c have "res = Inl ListFailed" "\<sigma>' = \<sigma>1" by (simp_all add: generateUnitTests_def)
    with t1 None l show ?thesis by (simp add: newEvents_def)
  next
    case (Some names)
    obtain mres \<sigma>2 where m:
      "modelLoop E (buildRequest model code) (availableModelsOf model names) \<sigma>1 = (mres, \<sigma>2)"
      by (cases "modelLoop E (buildRequest model code) (availableModelsOf model names) \<sigma>1")
    from modelLoop_shape [OF m] obtain ass where
      t2: "trace \<sigma>2 = trace \<sigma>1 @ matrixEvents (buildRequest model code) (availableModelsOf model names) ass"
      and s: "matrixShape (length (availableModelsOf model names)) mres ass" by auto
    from assms c Some m have r: "res = (case mres of None \<Rightarrow> Inl Exhausted | Some out \<Rightarrow> Inr out)"
      and e: "\<sigma>' = \<sigma>2" by (auto simp: generateUnitTests_def split: option.splits)
    have ne: "newEvents \<sigma> \<sigma>' = EvList (Some names)
        # matrixEvents (buildRequest model code) (availableModelsOf model names) ass"
      using t1 t2 e Some by (simp add: newEvents_def)
    from l Some have ln: "fst (clientList E (world \<sigma>)) = Some names" by simp
    from ne s r have "\<exists>ass mres.
        newEvents \<sigma> \<sigma>' = EvList (Some names)
          # matrixEvents (buildRequest model code) (availableModelsOf model names) ass \<and>
        matrixShape (length (availableModelsOf model names)) mres ass \<and>
        res = (case mres of None \<Rightarrow> Inl Exhausted | Some out \<Rightarrow> Inr out)" by blast
    with ln show ?thesis by simp
  qed
qed

section \<open>Facts about the calls of a run\<close>

lemma grows_refl [simp]: "grows \<sigma> \<sigma>" "newEvents \<sigma> \<sigma> = []"
  by (simp_all add: grows_def newEvents_def)

lemma growsI: "trace \<sigma>' = trace \<sigma> @ evs \<Longrightarrow> grows \<sigma> \<sigma>' \<and> newEvents \<sigma> \<sigma>' = evs"
  by (simp add: grows_def newEvents_def)

lemma grows_iff: "grows \<sigma> \<sigma>' \<longleftrightarrow> (\<exists>evs. trace \<sigma>' = trace \<sigma> @ evs)"
  by (auto simp: grows_def newEvents_def)

lemma grows_trans:
  assumes "grows \<sigma> \<sigma>1" and "grows \<sigma>1 \<sigma>2"
  shows "grows \<sigma> \<sigma>2 \<and> newEvents \<sigma> \<sigma>2 = newEvents \<sigma> \<sigma>1 @ newEvents \<sigma>1 \<sigma>2"
proof -
  from assms obtain evs1 evs2 where
    "trace \<sigma>1 = trace \<sigma> @ evs1" "trace \<sigma>2 = trace \<sigma>1 @ evs2"
    by (auto simp: grows_iff)
  then show ?thesis by (simp add: grows_iff newEvents_def)
qed

lemma call_grows:
  "call f ev \<sigma> = (r, \<sigma>') \<Longrightarrow> grows \<sigma> \<sigma>' \<and> newEvents \<sigma> \<sigma>' = [ev r] \<and> r = fst (f (world \<sigma>))"
  by (simp add: call_eq grows_def newEvents_def)

lemma quiet_simps [simp]:
  "quiet []"
  "quiet (EvReadFile n c # evs) = quiet evs"
  "quiet (EvStat n s # evs) = quiet evs"
  "quiet (EvMkdirTemp d # evs) = quiet evs"
  "quiet (EvRemoveAll n # evs) = quiet evs"
  "quiet (EvWriteFile SandboxTest n t ok # evs) = quiet evs"
  "quiet (EvWriteFile SandboxCopy n t ok # evs) = quiet evs"
  by (simp_all add: quiet_def toolCalls_def isTool_def)

lemma quiet_append: "quiet (xs @ ys) = (quiet xs \<and> quiet ys)"
  by (auto simp: quiet_def toolCalls_def genCalls_append writesAt_append)

lemma call_pair:
  "call f ev \<sigma> =
     (fst (f (world \<sigma>)),
      \<lparr>world = snd (f (world \<sigma>)), trace = trace \<sigma> @ [ev (fst (f (world \<sigma>)))]\<rparr>)"
  by (simp add: call_def split: prod.splits)

lemma copyFile_events:
  "copyFile E src dst \<sigma> = (ok, \<sigma>') \<Longrightarrow> grows \<sigma> \<sigma>' \<and> quiet (newEvents \<sigma> \<sigma>')"
  by (auto simp: copyFile_def call_pair grows_def newEvents_def split: option.splits)

lemma copyHeader_events:
  "copyHeader E tempDir src \<sigma> = (ok, \<sigma>') \<Longrightarrow> grows \<sigma> \<sigma>' \<and> quiet (newEvents \<sigma> \<sigma>')"
  by (auto simp: copyHeader_def copyFile_def call_pair grows_def newEvents_def Let_def
      split: option.splits stat.splits if_splits)

lemma toolCalls_simps [simp]:
  "toolCalls [] = []"
  "toolCalls (EvCompile d r # evs) = EvCompile d r # toolCalls evs"
  "toolCalls (EvRunTests b r # evs) = EvRunTests b r # toolCalls evs"
  "toolCalls (EvGcov n r # evs) = EvGcov n r # toolCalls evs"
  "toolCalls (EvList l # evs) = toolCalls evs"
  "toolCalls (EvGenerate req a # evs) = toolCalls evs"
  "toolCalls (EvWriteFile st n t ok # evs) = toolCalls evs"
  "toolCalls (EvReadFile n c # evs) = toolCalls evs"
  "toolCalls (EvStat n s # evs) = toolCalls evs"
  "toolCalls (EvMkdirTemp dd # evs) = toolCalls evs"
  "toolCalls (EvRemoveAll n # evs) = toolCalls evs"
  by (simp_all add: toolCalls_def isTool_def)

lemma toolCalls_append: "toolCalls (xs @ ys) = toolCalls xs @ toolCalls ys"
  by (simp add: toolCalls_def)

lemma compileAndRun_events:
  "compileAndRun E tempDir baseName \<sigma> = (res, \<sigma>') \<Longrightarrow>
   grows \<sigma> \<sigma>' \<and> newEvents \<sigma> \<sigma>' = toolCalls (newEvents \<sigma> \<sigma>') \<and>
   newEvents \<sigma> \<sigma>' \<noteq> [] \<and> runShape res (newEvents \<sigma> \<sigma>')"
  by (auto simp: compileAndRun_def coverageStage_def call_pair grows_def newEvents_def runShape_def
      split: prod.splits bool.splits)

lemma tools_only:
  "evs = toolCalls evs \<Longrightarrow> genCalls evs = [] \<and> writesAt st evs = []"
proof -
  assume "evs = toolCalls evs"
  then have "\<forall>e \<in> set evs. isTool e"
    unfolding toolCalls_def by (metis filter_id_conv)
  then show ?thesis
  proof (induction evs)
    case Nil
    show ?case by simp
  next
    case (Cons e evs)
    then show ?case by (cases e) (simp_all add: isTool_def)
  qed
qed

lemma quiet_toolCalls: "quiet evs \<Longrightarrow> toolCalls evs = []"
  by (simp add: quiet_def)

lemma sandbox_events:
  assumes "sandbox E tempDir tests src \<sigma> = (res, \<sigma>')"
  shows "grows \<sigma> \<sigma>' \<and> genCalls (newEvents \<sigma> \<sigma>') = [] \<and>
         writesAt TestsDir (newEvents \<sigma> \<sigma>') = [] \<and>
         writesAt RawResponse (newEvents \<sigma> \<sigma>') = [] \<and>
         runShape res (toolCalls (newEvents \<sigma> \<sigma>'))"
proof -
  let ?goal = "\<lambda>\<sigma>'. grows \<sigma> \<sigma>' \<and> genCalls (newEvents \<sigma> \<sigma>') = [] \<and>
         writesAt TestsDir (newEvents \<sigma> \<sigma>') = [] \<and>
         writesAt RawResponse (newEvents \<sigma> \<sigma>') = [] \<and>
         runShape res (toolCalls (newEvents \<sigma> \<sigma>'))"
  have early: "?goal s" if "grows \<sigma> s" "quiet (newEvents \<sigma> s)" "earlyFailure res" for s
    using that by (simp add: quiet_def runShape_def)
  obtain ok1 \<sigma>1 where c1:
    "call (osWriteFile E (Join tempDir ''test.cpp'') tests)
          (EvWriteFile SandboxTest (Join tempDir ''test.cpp'') tests) \<sigma> = (ok1, \<sigma>1)"
    by (cases "call (osWriteFile E (Join tempDir ''test.cpp'') tests)
          (EvWriteFile SandboxTest (Join tempDir ''test.cpp'') tests) \<sigma>")
  from call_grows [OF c1] have g1: "grows \<sigma> \<sigma>1" and q1: "quiet (newEvents \<sigma> \<sigma>1)" by simp_all
  show ?thesis
  proof (cases ok1)
    case False
    with assms c1 have "\<sigma>' = \<sigma>1" "earlyFailure res"
      by (simp_all add: sandbox_def earlyFailure_def)
    with early [OF g1 q1] show ?thesis by simp
  next
    case ok1: True
    obtain ok2 \<sigma>2 where c2: "copyFile E src (Join tempDir (Base src)) \<sigma>1 = (ok2, \<sigma>2)"
      by (cases "copyFile E src (Join tempDir (Base src)) \<sigma>1")
    from copyFile_events [OF c2] have g12: "grows \<sigma>1 \<sigma>2" and q12: "quiet (newEvents \<sigma>1 \<sigma>2)"
      by simp_all
    from grows_trans [OF g1 g12] have g2: "grows \<sigma> \<sigma>2"
      and n2: "newEvents \<sigma> \<sigma>2 = newEvents \<sigma> \<sigma>1 @ newEvents \<sigma>1 \<sigma>2" by simp_all
    have q2: "quiet (newEvents \<sigma> \<sigma>2)" using n2 q1 q12 by (simp add: quiet_append)
    show ?thesis
    proof (cases ok2)
      case False
      with assms c1 ok1 c2 have "\<sigma>' = \<sigma>2" "earlyFailure res"
        by (simp_all add: sandbox_def earlyFailure_def)
      with early [OF g2 q2] show ?thesis by simp
    next
      case ok2: True
      obtain ok3 \<sigma>3 where c3: "copyHeader E tempDir src \<sigma>2 = (ok3, \<sigma>3)"
        by (cases "copyHeader E tempDir src \<sigma>2")
      from copyHeader_events [OF c3] have g23: "grows \<sigma>2 \<sigma>3" and q23: "quiet (newEvents \<sigma>2 \<sigma>3)"
        by simp_all
      from grows_trans [OF g2 g23] have g3: "grows \<sigma> \<sigma>3"
        and n3: "newEvents \<sigma> \<sigma>3 = newEvents \<sigma> \<sigma>2 @ newEvents \<sigma>2 \<sigma>3" by simp_all
      have q3: "quiet (newEvents \<sigma> \<sigma>3)" using n3 q2 q23 by (simp add: quiet_append)
      show ?thesis
      proof (cases ok3)
        case False
        with assms c1 ok1 c2 ok2 c3 have "\<sigma>' = \<sigma>3" "earlyFailure res"
          by (simp_all add: sandbox_def earlyFailure_def)
        with early [OF g3 q3] show ?thesis by simp
      next
        case ok3: True
        with assms c1 ok1 c2 ok2 c3 have c4: "compileAndRun E tempDir (Base src) \<sigma>3 = (res, \<sigma>')"
          by (simp add: sandbox_def)
        from compileAndRun_events [OF c4] have g4: "grows \<sigma>3 \<sigma>'"
          and t4: "newEvents \<sigma>3 \<sigma>' = toolCalls (newEvents \<sigma>3 \<sigma>')"
          and r4: "runShape res (newEvents \<sigma>3 \<sigma>')" by simp_all
        from grows_trans [OF g3 g4] have g: "grows \<sigma> \<sigma>'"
          and n: "newEvents \<sigma> \<sigma>' = newEvents \<sigma> \<sigma>3 @ newEvents \<sigma>3 \<sigma>'" by simp_all
        from tools_only [OF t4] have "genCalls (newEvents \<sigma>3 \<sigma>') = []"
          "writesAt TestsDir (newEvents \<sigma>3 \<sigma>') = []" "writesAt RawResponse (newEvents \<sigma>3 \<sigma>') = []"
          by simp_all
        moreover have "toolCalls (newEvents \<sigma> \<sigma>') = newEvents \<sigma>3 \<sigma>'"
          using n q3 t4 by (simp add: toolCalls_append quiet_def)
        ultimately show ?thesis using g n q3 r4
          by (simp add: genCalls_append writesAt_append quiet_def)
      qed
    qed
  qed
qed

lemma runTestsAndCoverage_events:
  assumes "runTestsAndCoverage E tests src \<sigma> = (res, \<sigma>')"
  shows "grows \<sigma> \<sigma>' \<and> genCalls (newEvents \<sigma> \<sigma>') = [] \<and>
         writesAt TestsDir (newEvents \<sigma> \<sigma>') = [] \<and>
         writesAt RawResponse (newEvents \<sigma> \<sigma>') = [] \<and>
         runShape res (toolCalls (newEvents \<sigma> \<sigma>'))"
proof -
  obtain dir \<sigma>1 where c1: "call (osMkdirTemp E) EvMkdirTemp \<sigma> = (dir, \<sigma>1)"
    by (cases "call (osMkdirTemp E) EvMkdirTemp \<sigma>")
  from call_grows [OF c1] have g1: "grows \<sigma> \<sigma>1" and n1: "newEvents \<sigma> \<sigma>1 = [EvMkdirTemp dir]"
    by simp_all
  show ?thesis
  proof (cases dir)
    case None
    with assms c1 have "\<sigma>' = \<sigma>1" "res = (False, 0, Some MkdirTempFailed)"
      by (simp_all add: runTestsAndCoverage_def)
    with g1 n1 show ?thesis by (simp add: runShape_def earlyFailure_def)
  next
    case (Some tempDir)
    obtain r2 \<sigma>2 where c2: "sandbox E tempDir tests src \<sigma>1 = (r2, \<sigma>2)"
      by (cases "sandbox E tempDir tests src \<sigma>1")
    obtain u \<sigma>3 where c3: "call (osRemoveAll E tempDir) (\<lambda>u. EvRemoveAll tempDir) \<sigma>2 = (u, \<sigma>3)"
      by (cases "call (osRemoveAll E tempDir) (\<lambda>u. EvRemoveAll tempDir) \<sigma>2")
    from assms c1 Some c2 c3 have e: "res = r2" "\<sigma>' = \<sigma>3"
      by (simp_all add: runTestsAndCoverage_def)
    from sandbox_events [OF c2] have g2: "grows \<sigma>1 \<sigma>2" and
      s2: "genCalls (newEvents \<sigma>1 \<sigma>2) = []" "writesAt TestsDir (newEvents \<sigma>1 \<sigma>2) = []"
          "writesAt RawResponse (newEvents \<sigma>1 \<sigma>2) = []"
          "runShape r2 (toolCalls (newEvents \<sigma>1 \<sigma>2))" by simp_all
    from call_grows [OF c3] have g3: "grows \<sigma>2 \<sigma>3" and n3: "newEvents \<sigma>2 \<sigma>3 = [EvRemoveAll tempDir]"
      by simp_all
    from grows_trans [OF g1 g2] have g12: "grows \<sigma> \<sigma>2"
      and n12: "newEvents \<sigma> \<sigma>2 = newEvents \<sigma> \<sigma>1 @ newEvents \<sigma>1 \<sigma>2" by simp_all
    from grows_trans [OF g12 g3] have g: "grows \<sigma> \<sigma>3"
      and n: "newEvents \<sigma> \<sigma>3 = newEvents \<sigma> \<sigma>2 @ newEvents \<sigma>2 \<sigma>3" by simp_all
    show ?thesis using g n n12 n1 n3 s2 e
      by (simp add: genCalls_append writesAt_append toolCalls_append)
  qed
qed

lemma toolCalls_attemptEvents: "toolCalls (attemptEvents req a answers) = []"
  by (induction req a answers rule: attemptEvents.induct) simp_all

lemma toolCalls_matrixEvents: "toolCalls (matrixEvents req models ass) = []"
  by (induction req models ass rule: matrixEvents.induct)
     (simp_all add: toolCalls_append toolCalls_attemptEvents)

lemma generate_grows:
  assumes "generateUnitTests E model code \<sigma> = (res, \<sigma>')"
  shows "grows \<sigma> \<sigma>' \<and> toolCalls (newEvents \<sigma> \<sigma>') = [] \<and>
         writesAt TestsDir (newEvents \<sigma> \<sigma>') = [] \<and>
         (\<forall>tests. res = Inr tests \<longrightarrow>
            validate tests = Accepted tests \<and>
            (\<exists>req raw. (req, Some raw) \<in> set (genCalls (newEvents \<sigma> \<sigma>')) \<and> normalize raw = tests))"
proof -
  obtain lst \<sigma>1 where c: "call (clientList E) EvList \<sigma> = (lst, \<sigma>1)"
    by (cases "call (clientList E) EvList \<sigma>")
  from call_grows [OF c] have g1: "grows \<sigma> \<sigma>1" and n1: "newEvents \<sigma> \<sigma>1 = [EvList lst]"
    by simp_all
  show ?thesis
  proof (cases lst)
    case None
    with assms c have "res = Inl ListFailed" "\<sigma>' = \<sigma>1" by (simp_all add: generateUnitTests_def)
    with g1 n1 show ?thesis by simp
  next
    case (Some names)
    let ?req = "buildRequest model code" and ?ms = "availableModelsOf model names"
    obtain mres \<sigma>2 where m: "modelLoop E ?req ?ms \<sigma>1 = (mres, \<sigma>2)"
      by (cases "modelLoop E ?req ?ms \<sigma>1")
    from modelLoop_shape [OF m] obtain ass where
      t2: "trace \<sigma>2 = trace \<sigma>1 @ matrixEvents ?req ?ms ass"
      and s: "matrixShape (length ?ms) mres ass" by auto
    from growsI [OF t2] have g2: "grows \<sigma>1 \<sigma>2" and n2: "newEvents \<sigma>1 \<sigma>2 = matrixEvents ?req ?ms ass"
      by simp_all
    from assms c Some m have r: "res = (case mres of None \<Rightarrow> Inl Exhausted | Some out \<Rightarrow> Inr out)"
      and e: "\<sigma>' = \<sigma>2" by (auto simp: generateUnitTests_def split: option.splits)
    from grows_trans [OF g1 g2] have g: "grows \<sigma> \<sigma>2"
      and n: "newEvents \<sigma> \<sigma>2 = newEvents \<sigma> \<sigma>1 @ newEvents \<sigma>1 \<sigma>2" by simp_all
    have n': "newEvents \<sigma> \<sigma>' = EvList lst # matrixEvents ?req ?ms ass"
      using n n1 n2 e by simp
    have v: "validate tests = Accepted tests \<and>
        (\<exists>req raw. (req, Some raw) \<in> set (genCalls (newEvents \<sigma> \<sigma>')) \<and> normalize raw = tests)"
      if "res = Inr tests" for tests
    proof -
      from that r have "mres = Some tests" by (cases mres) simp_all
      with s have "matrixShape (length ?ms) (Some tests) ass" by simp
      from genCalls_matrix_accepted [OF this, of ?req] obtain earlier req' raw where
        "genCalls (matrixEvents ?req ?ms ass) = earlier @ [(req', Some raw)]"
        "normalize raw = tests" "validate tests = Accepted tests" by blast
      then show ?thesis using n' by auto
    qed
    show ?thesis using g e n' v
      by (simp add: toolCalls_matrixEvents writesAt_matrixEvents_other)
  qed
qed

lemma pairingCheck_events:
  "pairingCheck E filePath \<sigma> = (ok, \<sigma>') \<Longrightarrow> grows \<sigma> \<sigma>' \<and> quiet (newEvents \<sigma> \<sigma>')"
  by (auto simp: pairingCheck_def call_pair grows_def newEvents_def split: if_splits)

lemma coverageGate_pass:
  "coverageGate report = (passed, cov, None) \<Longrightarrow>
   passed \<and> 80 \<le> cov \<and> (\<exists>m. FindCoverage report = Some m \<and> ParseFloat m = Some cov)"
  by (auto simp: coverageGate_def split: option.splits if_splits)

lemma runShape_pass:
  "runShape (passed, cov, None) tools \<Longrightarrow>
   \<exists>d co b ro n report. tools = [EvCompile d (True, co), EvRunTests b (True, ro), EvGcov n (True, report)] \<and>
      coverageGate report = (passed, cov, None)"
  by (auto simp: runShape_def earlyFailure_def)

lemma processUnit_events:
  assumes "processUnit E (filePath, content) \<sigma> = (out, \<sigma>')"
  shows "grows \<sigma> \<sigma>' \<and>
         ((writesAt TestsDir (newEvents \<sigma> \<sigma>') = [] \<and> notPersisted out) \<or>
          persistedBy filePath out (newEvents \<sigma> \<sigma>'))"
proof -
  obtain ok \<sigma>1 where c1: "pairingCheck E filePath \<sigma> = (ok, \<sigma>1)"
    by (cases "pairingCheck E filePath \<sigma>")
  from pairingCheck_events [OF c1] have g1: "grows \<sigma> \<sigma>1" and q1: "quiet (newEvents \<sigma> \<sigma>1)"
    by simp_all
  show ?thesis
  proof (cases ok)
    case False
    with assms c1 have "out = Skipped" "\<sigma>' = \<sigma>1" by (simp_all add: processUnit_def)
    with g1 q1 show ?thesis by (simp add: quiet_def notPersisted_def)
  next
    case ok: True
    obtain gres \<sigma>2 where c2: "generateUnitTests E defaultModel content \<sigma>1 = (gres, \<sigma>2)"
      by (cases "generateUnitTests E defaultModel content \<sigma>1")
    from generate_grows [OF c2] have g12: "grows \<sigma>1 \<sigma>2"
      and t12: "toolCalls (newEvents \<sigma>1 \<sigma>2) = []"
      and w12: "writesAt TestsDir (newEvents \<sigma>1 \<sigma>2) = []"
      and v12: "\<And>tests. gres = Inr tests \<Longrightarrow> validate tests = Accepted tests \<and>
            (\<exists>req raw. (req, Some raw) \<in> set (genCalls (newEvents \<sigma>1 \<sigma>2)) \<and> normalize raw = tests)"
      by simp_all
    from grows_trans [OF g1 g12] have g2: "grows \<sigma> \<sigma>2"
      and n2: "newEvents \<sigma> \<sigma>2 = newEvents \<sigma> \<sigma>1 @ newEvents \<sigma>1 \<sigma>2" by simp_all
    show ?thesis
    proof (cases gres)
      case (Inl err)
      with assms c1 ok c2 have "out = GenerationFailed err" "\<sigma>' = \<sigma>2"
        by (simp_all add: processUnit_def)
      with g2 n2 q1 w12 show ?thesis by (simp add: quiet_def notPersisted_def writesAt_append)
    next
      case (Inr tests)
      from v12 [OF Inr] obtain req raw where
        valid: "validate tests = Accepted tests" and
        call: "(req, Some raw) \<in> set (genCalls (newEvents \<sigma>1 \<sigma>2))" "normalize raw = tests" by blast
      obtain passed cov err \<sigma>3 where
        c3: "runTestsAndCoverage E tests (sourceFileOf filePath) \<sigma>2 = ((passed, cov, err), \<sigma>3)"
        by (cases "runTestsAndCoverage E tests (sourceFileOf filePath) \<sigma>2") auto
      from runTestsAndCoverage_events [OF c3] have g23: "grows \<sigma>2 \<sigma>3"
        and c23: "genCalls (newEvents \<sigma>2 \<sigma>3) = []"
        and w23: "writesAt TestsDir (newEvents \<sigma>2 \<sigma>3) = []"
        and s23: "runShape (passed, cov, err) (toolCalls (newEvents \<sigma>2 \<sigma>3))" by simp_all
      from grows_trans [OF g2 g23] have g3: "grows \<sigma> \<sigma>3"
        and n3: "newEvents \<sigma> \<sigma>3 = newEvents \<sigma> \<sigma>2 @ newEvents \<sigma>2 \<sigma>3" by simp_all
      have w3: "writesAt TestsDir (newEvents \<sigma> \<sigma>3) = []"
        using n3 n2 q1 w12 w23 by (simp add: writesAt_append quiet_def)
      show ?thesis
      proof (cases err)
        case (Some e)
        with assms c1 ok c2 Inr c3 have "out = TestValidationFailed e" "\<sigma>' = \<sigma>3"
          by (simp_all add: processUnit_def)
        with g3 w3 show ?thesis by (simp add: notPersisted_def)
      next
        case None
        from runShape_pass [OF s23 [unfolded None]] obtain d co b ro n report where
          tools: "toolCalls (newEvents \<sigma>2 \<sigma>3) = [EvCompile d (True, co), EvRunTests b (True, ro), EvGcov n (True, report)]"
          and gate: "coverageGate report = (passed, cov, None)" by blast
        from coverageGate_pass [OF gate] obtain m where
          p: "passed" "80 \<le> cov" "FindCoverage report = Some m" "ParseFloat m = Some cov" by blast
        obtain saved \<sigma>4 where c4:
          "call (osWriteFile E (testFileOf filePath) tests)
                (EvWriteFile TestsDir (testFileOf filePath) tests) \<sigma>3 = (saved, \<sigma>4)"
          by (cases "call (osWriteFile E (testFileOf filePath) tests)
                (EvWriteFile TestsDir (testFileOf filePath) tests) \<sigma>3")
        from call_grows [OF c4] have g34: "grows \<sigma>3 \<sigma>4"
          and n34: "newEvents \<sigma>3 \<sigma>4 = [EvWriteFile TestsDir (testFileOf filePath) tests saved]"
          by simp_all
        from grows_trans [OF g3 g34] have g4: "grows \<sigma> \<sigma>4"
          and n4: "newEvents \<sigma> \<sigma>4 = newEvents \<sigma> \<sigma>3 @ newEvents \<sigma>3 \<sigma>4" by simp_all
        from assms c1 ok c2 Inr c3 None p(1) c4 have
          o: "out = (if saved then Persisted (testFileOf filePath) cov else WriteFailed (testFileOf filePath))"
          and e: "\<sigma>' = \<sigma>4" by (auto simp: processUnit_def split: bool.splits)
        have "writesAt TestsDir (newEvents \<sigma> \<sigma>4) = [(testFileOf filePath, tests)]"
          using n4 n34 w3 by (simp add: writesAt_append)
        moreover have "last (newEvents \<sigma> \<sigma>4) = EvWriteFile TestsDir (testFileOf filePath) tests saved"
          using n4 n34 by simp
        moreover have "(req, Some raw) \<in> set (genCalls (newEvents \<sigma> \<sigma>4))"
          using n4 n3 n2 call(1) by (simp add: genCalls_append)
        moreover have "toolCalls (newEvents \<sigma> \<sigma>4)
            = [EvCompile d (True, co), EvRunTests b (True, ro), EvGcov n (True, report)]"
          using n4 n34 n3 n2 q1 t12 tools by (simp add: toolCalls_append quiet_def)
        ultimately have "persistedBy filePath out (newEvents \<sigma> \<sigma>4)"
          unfolding persistedBy_def using o call(2) valid p(2,3,4) by blast
        with g4 e show ?thesis by simp
      qed
    qed
  qed
qed

lemma in_toolCalls: "ev \<in> set evs \<Longrightarrow> isTool ev \<Longrightarrow> ev \<in> set (toolCalls evs)"
  by (simp add: toolCalls_def)

lemma coverageGate_no_match:
  "FindCoverage report = None \<Longrightarrow> coverageGate report = (True, 0, Some (GcovParseFailed report))"
  by (simp add: coverageGate_def)





section \<open>The program run on examples\<close>

lemma goodTests_valid: "validate goodTests = Accepted goodTests"
  by code_simp

lemma normalize_goodTests: "normalize goodTests = goodTests"
  by code_simp

lemma rejected_examples:
  "validate openEnded = Rejected IncompleteTESTMacro"
  "validate fiveTests = Rejected (WrongTestCount 5)"
  by code_simp+

lemma rejected_for_open_body: "validate s = Rejected IncompleteTESTMacro \<Longrightarrow> incompleteTEST s"
  by (auto simp: validate_def split: if_splits)

lemma rejected_for_count:
  "validate s = Rejected (WrongTestCount n) \<Longrightarrow> \<not> incompleteTEST s \<and> testCount s = n"
  by (auto simp: validate_def split: if_splits)

lemma buildRequest_Model [simp]:
  "(buildRequest m code)\<lparr>Model := m'\<rparr> = buildRequest m' code"
  "Model (buildRequest m code) = m"
  by (simp_all add: buildRequest_def)

lemma Contains_prefix: "Contains (p @ t) p"
  using Contains_iff [of "p @ t" p] by (metis append_Nil)

lemma showNat_attempts:
  "showNat 1 = ''1''" "showNat 2 = ''2''" "showNat 3 = ''3''"
  "showNat (Suc 0) = ''1''" "showNat (Suc (Suc 0)) = ''2''" "showNat (Suc (Suc (Suc 0))) = ''3''"
  by code_simp+

lemma shortAnswer: "normalize ''no tests'' = ''no tests''" "validate ''no tests'' = Rejected (TooShort 8)"
  by code_simp+

lemma env_calls [simp]:
  "clientList (stubEnv names files cf rr gr) = (\<lambda>w. (Some names, w))"
  "clientGenerate (stubEnv names files cf rr gr) = scriptedGenerate"
  "osWriteFile (stubEnv names files cf rr gr) = (\<lambda>name data w. (True, w))"
  "osReadFile (stubEnv names files cf rr gr) = (\<lambda>name w. (Some ''int f();'', w))"
  "osStat (stubEnv names files cf rr gr) = (\<lambda>name w. (StatOk, w))"
  "osMkdirTemp (stubEnv names files cf rr gr) = (\<lambda>w. (Some ''/tmp/unit-test-generator-1'', w))"
  "osRemoveAll (stubEnv names files cf rr gr) = (\<lambda>name w. ((), w))"
  "execCompile (stubEnv names files cf rr gr) = (\<lambda>dir test src w. (cf src, w))"
  "execRunTests (stubEnv names files cf rr gr) = (\<lambda>bin w. (rr, w))"
  "execGcov (stubEnv names files cf rr gr) = (\<lambda>dir src w. (gr, w))"
  "urlParse (stubEnv names files cf rr gr) = (\<lambda>w. (True, w))"
  "walkCodebase (stubEnv names files cf rr gr) = (\<lambda>w. (Some files, w))"
  "osMkdirAll (stubEnv names files cf rr gr) = (\<lambda>name w. (True, w))"
  by (simp_all add: stubEnv_def)

lemma sourceNames:
  "Base (Join ''/tmp/unit-test-generator-1'' (Base ''codebase/calc.cpp'')) = ''calc.cpp''"
  "Base (Join ''/tmp/unit-test-generator-1'' (Base ''codebase/bad.cpp'')) = ''bad.cpp''"
  "Base (Join ''/tmp/unit-test-generator-1'' (Base ''codebase/util.cpp'')) = ''util.cpp''"
  by code_simp+

lemma testFileOf_examples:
  "testFileOf ''codebase/calc.h'' = ''tests/calc_test.cpp''"
  "testFileOf ''codebase/calc.cpp'' = ''tests/calc_test.cpp''"
  "testFileOf ''codebase/bad.cpp'' = ''tests/bad_test.cpp''"
  "testFileOf ''codebase/util.cpp'' = ''tests/util_test.cpp''"
  by code_simp+

lemmas run_defs =
  processUnit_def pairingCheck_def sourceFileOf_def generateUnitTests_def availableModelsOf_def
  runTestsAndCoverage_def sandbox_def copyFile_def copyHeader_def compileAndRun_def
  coverageStage_def call_pair scriptedGenerate_def HasSuffix_def rawResponseName_def
  attemptLoop.simps exampleCompiler_def

lemma generate_example:
  "generateUnitTests exampleEnv ''m1'' ''code'' (start exampleAnswers) = (Inr goodTests, afterExample)"
  by (simp add: run_defs exampleEnv_def exampleAnswers_def start_def afterExample_def
      normalize_goodTests goodTests_valid shortAnswer showNat_attempts del: showNat.simps)

lemma generate_failures:
  "generateUnitTests exampleEnv ''m1'' ''code'' (start []) = (Inl Exhausted, afterFailures)"
  by (simp add: run_defs exampleEnv_def start_def afterFailures_def)

lemma ilog2_examples: "ilog2 80 = 6" "ilog2 (7999 / 100) = 6"
  by code_simp+

lemma quantum_example: "(2::rat) powi (6 - 52) = 1 / 70368744177664"
  by (simp add: power_int_def divide_simps)

lemma roundHalfEven_examples:
  "roundHalfEven 5629499534213120 = 5629499534213120"
  "roundHalfEven (140719896169283584 / 25) = 5628795846771343"
  by code_simp+

lemma roundFloat64_examples:
  "roundFloat64 80 = Some 80"
  "roundFloat64 (7999 / 100) = Some (5628795846771343 / 70368744177664)"
  by (simp_all add: roundFloat64_def Let_def ilog2_examples quantum_example roundHalfEven_examples)

lemma ParseFloat_examples:
  "ParseFloat ''80.00'' = Some 80"
  "ParseFloat ''79.99'' = Some (5628795846771343 / 70368744177664)"
  by (simp_all add: ParseFloat_def decimalValue_def isDigit_def digitsVal_def digitVal_def
      roundFloat64_examples)

lemma FindCoverage_examples:
  "FindCoverage ''Lines executed:80.00% of 100'' = Some ''80.00''"
  "FindCoverage ''Lines executed:79.99% of 100'' = Some ''79.99''"
  by (simp_all add: coverageAt_def isDigitOrDot_def isDigit_def)

lemma coverageGate_examples:
  "coverageGate ''Lines executed:80.00% of 100'' = (True, 80, None)"
  "coverageGate ''Lines executed:79.99% of 100''
     = (False, 5628795846771343 / 70368744177664,
        Some (BelowThreshold (5628795846771343 / 70368744177664)))"
  by (simp_all add: coverageGate_def FindCoverage_examples ParseFloat_examples del: FindCoverage.simps)

lemma calcRun_eval:
  "fst calcRun = Persisted ''tests/calc_test.cpp'' 80"
  "writesAt TestsDir (newEvents (start [Some goodTests]) (snd calcRun))
     = [(''tests/calc_test.cpp'', goodTests)]"
  "toolCalls (newEvents (start [Some goodTests]) (snd calcRun))
     = [EvCompile ''/tmp/unit-test-generator-1'' (True, []),
        EvRunTests (Join ''/tmp/unit-test-generator-1'' ''run_tests'') (True, []),
        EvGcov (Base ''codebase/calc.cpp'') (True, ''Lines executed:80.00% of 100'')]"
  by (simp_all add: calcRun_def run_defs exampleEnv_def start_def newEvents_def defaultModel_def
      normalize_goodTests goodTests_valid coverageGate_examples sourceNames testFileOf_examples
      showNat_attempts Let_def del: showNat.simps)

lemma noReport: "FindCoverage ''no report'' = None"
  by (simp add: coverageAt_def)

lemma noReportGate: "coverageGate ''no report'' = (True, 0, Some (GcovParseFailed ''no report''))"
  using noReport by (rule coverageGate_no_match)

lemma brokenCoverage_eval:
  "fst brokenCoverage = (True, 0, Some (GcovParseFailed ''no report''))"
  "EvGcov (Base ''codebase/calc.cpp'') (True, ''no report'')
     \<in> set (newEvents (start []) (snd brokenCoverage))"
  by (simp_all add: brokenCoverage_def run_defs brokenGcovEnv_def start_def newEvents_def
      noReportGate sourceNames Let_def)

lemma brokenRun_eval:
  "fst brokenRun = TestValidationFailed (GcovParseFailed ''no report'')"
  "EvGcov (Base ''codebase/calc.cpp'') (True, ''no report'')
     \<in> set (newEvents (start [Some goodTests]) (snd brokenRun))"
  "writesAt TestsDir (newEvents (start [Some goodTests]) (snd brokenRun)) = []"
  by (simp_all add: brokenRun_def run_defs brokenGcovEnv_def start_def newEvents_def defaultModel_def
      normalize_goodTests goodTests_valid noReportGate sourceNames
      showNat_attempts Let_def del: showNat.simps)


lemma afterExample_events:
  "genCalls (newEvents (start exampleAnswers) afterExample)
     = [(buildRequest ''m1'' ''code'', None), (buildRequest ''m1'' ''code'', Some ''no tests''),
        (buildRequest ''m1'' ''code'', Some goodTests)]"
  "writesAt RawResponse (newEvents (start exampleAnswers) afterExample)
     = [(''raw_response_m1_attempt_2.txt'', ''no tests''),
        (''raw_response_m1_attempt_3.txt'', goodTests)]"
  by (simp_all add: newEvents_def start_def afterExample_def)

lemma afterFailures_events:
  "genCalls (newEvents (start []) afterFailures)
     = [(buildRequest ''m1'' ''code'', None), (buildRequest ''m1'' ''code'', None),
        (buildRequest ''m1'' ''code'', None), (buildRequest ''m2'' ''code'', None),
        (buildRequest ''m2'' ''code'', None), (buildRequest ''m2'' ''code'', None)]"
  "writesAt RawResponse (newEvents (start []) afterFailures) = []"
  by (simp_all add: newEvents_def start_def afterFailures_def)

lemma exampleEnv_list: "fst (clientList exampleEnv (world (start answers))) = Some [''m2'']"
  by (simp add: exampleEnv_def)


section \<open>The checks on a generated text\<close>

text \<open>
  Claim C2. A text is accepted exactly when it has at least 250 bytes, holds the four
  include lines and the word \<open>TEST\<close>, does not end in an open test body (no cut of the
  text into a part before, \<open>TEST(\<close>, one or more bytes other than \<open>)\<close>, \<open>)\<close>, blanks,
  \<open>{\<close> and a rest without \<open>}\<close>), has exactly four places where \<open>TEST(CalculatorTest,\<close>
  starts, calls \<open>add(\<close> and \<open>subtract(\<close>, and has as many \<open>{\<close> as \<open>}\<close>. The checks run in
  this order and a rejected text carries the reason of the first check that fails:
  \<open>validate\<close>, read off the source, is the function \<open>validatorSpec\<close> that walks the
  chain of rules in the order of the specification and answers with the first
  violation.
\<close>

theorem validate_accepts_iff_all_rules:
  "validate s = validatorSpec s \<and>
   (validate s = Accepted s \<longleftrightarrow>
      250 \<le> length s \<and>
      (\<forall>inc \<in> set requiredIncludes. Contains s inc) \<and>
      Contains s ''TEST'' \<and>
      \<not> (\<exists>pre args ws body.
            s = pre @ ''TEST('' @ args @ '')'' @ ws @ ''{'' @ body \<and>
            args \<noteq> [] \<and> CHR '')'' \<notin> set args \<and>
            set ws \<subseteq> {CHR 0x09, CHR 0x0A, CHR 0x0C, CHR 0x0D, CHR 0x20} \<and>
            CHR ''}'' \<notin> set body) \<and>
      card {a. \<exists>b. s = a @ ''TEST(CalculatorTest,'' @ b} = 4 \<and>
      (\<forall>m \<in> set methods. Contains s (m @ ''('')) \<and>
      count_list s CHR ''{'' = count_list s CHR ''}'')"
proof
  show "validate s = validatorSpec s" by (rule validate_eq_spec)
  have code: "validate s = Accepted s \<longleftrightarrow>
      250 \<le> length s \<and>
      (\<forall>inc \<in> set requiredIncludes. Contains s inc) \<and>
      Contains s ''TEST'' \<and>
      \<not> incompleteTEST s \<and>
      testCount s = 4 \<and>
      (\<forall>m \<in> set methods. Contains s (m @ ''('')) \<and>
      count_list s CHR ''{'' = count_list s CHR ''}''"
    by (auto simp: validate_def requiredIncludes_def braceCount_zero_iff
        missingMethods_empty_iff)
  have a: "incompleteTEST s \<longleftrightarrow>
      (\<exists>pre args ws body.
            s = pre @ ''TEST('' @ args @ '')'' @ ws @ ''{'' @ body \<and>
            args \<noteq> [] \<and> CHR '')'' \<notin> set args \<and>
            set ws \<subseteq> {CHR 0x09, CHR 0x0A, CHR 0x0C, CHR 0x0D, CHR 0x20} \<and>
            CHR ''}'' \<notin> set body)"
    unfolding incompleteTEST_iff openTestBody_def blanks_def ..
  have b: "testCount s = card {a. \<exists>b. s = a @ ''TEST(CalculatorTest,'' @ b}"
    unfolding testCount_iff declarationCount_def declarationPattern_def ..
  show "validate s = Accepted s \<longleftrightarrow>
      250 \<le> length s \<and>
      (\<forall>inc \<in> set requiredIncludes. Contains s inc) \<and>
      Contains s ''TEST'' \<and>
      \<not> (\<exists>pre args ws body.
            s = pre @ ''TEST('' @ args @ '')'' @ ws @ ''{'' @ body \<and>
            args \<noteq> [] \<and> CHR '')'' \<notin> set args \<and>
            set ws \<subseteq> {CHR 0x09, CHR 0x0A, CHR 0x0C, CHR 0x0D, CHR 0x20} \<and>
            CHR ''}'' \<notin> set body) \<and>
      card {a. \<exists>b. s = a @ ''TEST(CalculatorTest,'' @ b} = 4 \<and>
      (\<forall>m \<in> set methods. Contains s (m @ ''('')) \<and>
      count_list s CHR ''{'' = count_list s CHR ''}''"
    unfolding code a b ..
qed

text \<open>
  C2 at a text that passes every check, at the same text followed by a test that is
  opened and not closed, which is rejected for that, and at the same text followed by a
  fifth complete test, which is rejected for its count.
\<close>

theorem validate_accepts_witness:
  "validate goodTests = Accepted goodTests \<and>
   250 \<le> length goodTests \<and>
   Contains goodTests inc_gtest \<and> Contains goodTests inc_cmath \<and>
   Contains goodTests inc_stdexcept \<and> Contains goodTests inc_example \<and>
   Contains goodTests ''TEST'' \<and>
   \<not> openTestBody goodTests \<and>
   declarationCount goodTests = 4 \<and>
   Contains goodTests ''add('' \<and> Contains goodTests ''subtract('' \<and>
   count_list goodTests CHR ''{'' = count_list goodTests CHR ''}'' \<and>
   validatorSpec goodTests = Accepted goodTests \<and>
   validate openEnded = Rejected IncompleteTESTMacro \<and>
   openTestBody openEnded \<and>
   validatorSpec openEnded = Rejected IncompleteTESTMacro \<and>
   validate fiveTests = Rejected (WrongTestCount 5) \<and>
   \<not> openTestBody fiveTests \<and>
   declarationCount fiveTests = 5 \<and>
   validatorSpec fiveTests = Rejected (WrongTestCount 5)"
proof -
  note T = validate_accepts_iff_all_rules
  have g: "\<not> openTestBody goodTests" "declarationCount goodTests = 4"
    using T [of goodTests] goodTests_valid
    by (simp_all add: openTestBody_def blanks_def declarationCount_def declarationPattern_def)
  have o: "openTestBody openEnded"
    using rejected_for_open_body [OF rejected_examples(1)] by (simp add: incompleteTEST_iff)
  have f: "\<not> openTestBody fiveTests" "declarationCount fiveTests = 5"
    using rejected_for_count [OF rejected_examples(2)]
    by (simp_all add: incompleteTEST_iff testCount_iff)
  from T [of goodTests] T [of openEnded] T [of fiveTests] g o f show ?thesis
    using goodTests_valid rejected_examples
    by (simp add: requiredIncludes_def methods_def)
qed

text \<open>
  Claim C3, as stated, fails: the length is checked before the includes, and the includes
  are checked in a fixed order. The empty text lacks \<open>#include <cmath>\<close> and is
  rejected as too short; a text of 250 bytes that lacks both the first and the second
  include is rejected for the first.
\<close>

theorem missing_include_first_counterexample:
  "\<not> Contains [] inc_cmath \<and> validate [] \<noteq> Rejected (MissingInclude inc_cmath) \<and>
   \<not> Contains (replicate 250 CHR ''x'') inc_cmath \<and>
   validate (replicate 250 CHR ''x'') \<noteq> Rejected (MissingInclude inc_cmath)"
proof -
  have g: "\<not> Contains (replicate 250 CHR ''x'') inc_gtest"
    using Contains_set [of "replicate 250 CHR ''x''" inc_gtest] by (auto simp: inc_gtest_def)
  have c: "\<not> Contains (replicate 250 CHR ''x'') inc_cmath"
    using Contains_set [of "replicate 250 CHR ''x''" inc_cmath] by (auto simp: inc_cmath_def)
  have "validate (replicate 250 CHR ''x'') = Rejected (MissingInclude inc_gtest)"
    using g by (simp add: validate_def)
  moreover have "inc_gtest \<noteq> inc_cmath" by (simp add: inc_gtest_def inc_cmath_def)
  moreover have "validate [] = Rejected (TooShort 0)" by (simp add: validate_def)
  moreover have "\<not> Contains [] inc_cmath" by (simp add: inc_cmath_def)
  ultimately show ?thesis using c by simp
qed

text \<open>
  Claim C3, amended. A text of at least 250 bytes that lacks one of the four includes is
  rejected with the reason of the first include, in the order of the checks, that it
  lacks, whatever the later checks would say.
\<close>

theorem missing_include_after_length:
  "250 \<le> length s \<Longrightarrow> find (\<lambda>inc. \<not> Contains s inc) requiredIncludes = Some inc \<Longrightarrow>
   validate s = Rejected (MissingInclude inc)"
  by (auto simp: validate_def requiredIncludes_def split: if_splits)

text \<open>C3 (amended) at a text of 274 bytes that holds the first include only.\<close>

theorem missing_include_witness:
  "250 \<le> length (inc_gtest @ replicate 250 CHR ''x'') \<and>
   find (\<lambda>inc. \<not> Contains (inc_gtest @ replicate 250 CHR ''x'') inc) requiredIncludes = Some inc_cmath \<and>
   validate (inc_gtest @ replicate 250 CHR ''x'') = Rejected (MissingInclude inc_cmath)"
proof -
  let ?s = "inc_gtest @ replicate 250 CHR ''x''"
  have l: "250 \<le> length ?s" by simp
  have "\<not> Contains ?s inc_cmath"
    using Contains_set [of ?s inc_cmath] by (auto simp: inc_gtest_def inc_cmath_def)
  then have f: "find (\<lambda>inc. \<not> Contains ?s inc) requiredIncludes = Some inc_cmath"
    by (simp add: requiredIncludes_def Contains_prefix)
  from missing_include_after_length [OF l f] l f show ?thesis by simp
qed

section \<open>The generation loop\<close>

text \<open>
  Claim C5. With \<open>N\<close> models to try, a run of \<open>generateUnitTests\<close> that has listed the
  models issues at most \<open>3 * N\<close> generation calls; it ends either exhausted, after
  exactly \<open>3 * N\<close> calls none of which was answered with a text that passes the checks,
  or with a text, and then the last call of the run is the one that was answered with
  it, it passes the checks, and no earlier call was answered with a text that passes.
\<close>

theorem generation_call_budget:
  assumes "generateUnitTests E model code \<sigma> = (res, \<sigma>')"
    and "fst (clientList E (world \<sigma>)) = Some names"
  shows "length (genCalls (newEvents \<sigma> \<sigma>')) \<le> 3 * length (availableModelsOf model names) \<and>
         (res = Inl Exhausted \<or> (\<exists>out. res = Inr out)) \<and>
         (res = Inl Exhausted \<longrightarrow>
            length (genCalls (newEvents \<sigma> \<sigma>')) = 3 * length (availableModelsOf model names) \<and>
            (\<forall>c \<in> set (genCalls (newEvents \<sigma> \<sigma>')). \<not> acceptedAnswer (snd c))) \<and>
         (\<forall>out. res = Inr out \<longrightarrow>
            (\<exists>earlier req raw.
               genCalls (newEvents \<sigma> \<sigma>') = earlier @ [(req, Some raw)] \<and>
               normalize raw = out \<and> validate out = Accepted out \<and>
               (\<forall>c \<in> set earlier. \<not> acceptedAnswer (snd c))))"
proof -
  let ?req = "buildRequest model code" and ?ms = "availableModelsOf model names"
  from generate_events [OF assms(1)] assms(2) obtain ass mres where
    n: "newEvents \<sigma> \<sigma>' = EvList (Some names) # matrixEvents ?req ?ms ass" and
    s: "matrixShape (length ?ms) mres ass" and
    r: "res = (case mres of None \<Rightarrow> Inl Exhausted | Some out \<Rightarrow> Inr out)" by blast
  have g: "genCalls (newEvents \<sigma> \<sigma>') = genCalls (matrixEvents ?req ?ms ass)" using n by simp
  have b: "length (genCalls (newEvents \<sigma> \<sigma>')) \<le> 3 * length ?ms"
    unfolding g using matrixShape_regular [OF s] by (intro genCalls_matrix_length) simp
  show ?thesis
  proof (cases mres)
    case None
    with s have "matrixShape (length ?ms) None ass" by simp
    from genCalls_matrix_exhausted [OF this, of ?req] b r None show ?thesis
      unfolding g by simp
  next
    case (Some out)
    with s have "matrixShape (length ?ms) (Some out) ass" by simp
    from genCalls_matrix_accepted [OF this, of ?req] b r Some show ?thesis
      unfolding g by simp
  qed
qed

text \<open>
  C5 at two models and a backend that fails once, answers once with a text that is too
  short and then with a good text: three calls, all to the first model; and at a backend
  that always fails: six calls.
\<close>

theorem generation_budget_witness:
  "generateUnitTests exampleEnv ''m1'' ''code'' (start exampleAnswers) = (Inr goodTests, afterExample) \<and>
   fst (clientList exampleEnv (world (start exampleAnswers))) = Some [''m2''] \<and>
   availableModelsOf ''m1'' [''m2''] = [''m1'', ''m2''] \<and>
   genCalls (newEvents (start exampleAnswers) afterExample)
     = [(buildRequest ''m1'' ''code'', None), (buildRequest ''m1'' ''code'', Some ''no tests'')]
       @ [(buildRequest ''m1'' ''code'', Some goodTests)] \<and>
   \<not> acceptedAnswer None \<and> \<not> acceptedAnswer (Some ''no tests'') \<and>
   normalize goodTests = goodTests \<and> validate goodTests = Accepted goodTests \<and>
   generateUnitTests exampleEnv ''m1'' ''code'' (start []) = (Inl Exhausted, afterFailures) \<and>
   length (genCalls (newEvents (start []) afterFailures)) = 3 * length (availableModelsOf ''m1'' [''m2''])"
  using generation_call_budget [OF generate_example exampleEnv_list]
    generation_call_budget [OF generate_failures exampleEnv_list]
  by (simp add: generate_example generate_failures exampleEnv_list afterExample_events
      afterFailures_events availableModelsOf_def acceptedAnswer_def shortAnswer
      normalize_goodTests goodTests_valid)


text \<open>
  Claim C6. Every request sent to the backend carries the prompt built from the code and
  the two options fixed at the start; the requests of a run are an initial part of the
  matrix that, for each model in turn, holds three copies of the first request with only
  the model changed.
\<close>

theorem request_only_model_changes:
  assumes "generateUnitTests E model code \<sigma> = (res, \<sigma>')"
  shows "(\<forall>c \<in> set (genCalls (newEvents \<sigma> \<sigma>')).
            Prompt (fst c) = buildPrompt code \<and>
            Options (fst c) = [(''num_ctx'', 131072), (''num_predict'', 1024)]) \<and>
         (\<forall>names. fst (clientList E (world \<sigma>)) = Some names \<longrightarrow>
            map fst (genCalls (newEvents \<sigma> \<sigma>'))
              = take (length (genCalls (newEvents \<sigma> \<sigma>')))
                  (requestMatrix (buildRequest model code) (availableModelsOf model names)))"
proof -
  let ?req = "buildRequest model code"
  have m: "map fst (genCalls (newEvents \<sigma> \<sigma>'))
      = take (length (genCalls (newEvents \<sigma> \<sigma>'))) (requestMatrix ?req (availableModelsOf model names))"
    if "fst (clientList E (world \<sigma>)) = Some names" for names
  proof -
    from generate_events [OF assms] that obtain ass mres where
      n: "newEvents \<sigma> \<sigma>' = EvList (Some names) # matrixEvents ?req (availableModelsOf model names) ass" and
      s: "matrixShape (length (availableModelsOf model names)) mres ass" by blast
    from matrixShape_regular [OF s] show ?thesis
      using n genCalls_matrix_requests [of ass "availableModelsOf model names" ?req] by simp
  qed
  have "Prompt (fst c) = buildPrompt code \<and> Options (fst c) = [(''num_ctx'', 131072), (''num_predict'', 1024)]"
    if c: "c \<in> set (genCalls (newEvents \<sigma> \<sigma>'))" for c
  proof (cases "fst (clientList E (world \<sigma>))")
    case None
    with generate_events [OF assms] c show ?thesis by simp
  next
    case (Some names)
    from c have "fst c \<in> set (map fst (genCalls (newEvents \<sigma> \<sigma>')))" by simp
    then have "fst c \<in> set (requestMatrix ?req (availableModelsOf model names))"
      using m [OF Some] by (metis in_set_takeD)
    then show ?thesis by (auto simp: requestMatrix_def buildRequest_def)
  qed
  with m show ?thesis by blast
qed

text \<open>C6 at the same run.\<close>

theorem request_frame_witness:
  "generateUnitTests exampleEnv ''m1'' ''code'' (start exampleAnswers) = (Inr goodTests, afterExample) \<and>
   map fst (genCalls (newEvents (start exampleAnswers) afterExample))
     = [buildRequest ''m1'' ''code'', buildRequest ''m1'' ''code'', buildRequest ''m1'' ''code''] \<and>
   requestMatrix (buildRequest ''m1'' ''code'') (availableModelsOf ''m1'' [''m2''])
     = [buildRequest ''m1'' ''code'', buildRequest ''m1'' ''code'', buildRequest ''m1'' ''code'',
        buildRequest ''m2'' ''code'', buildRequest ''m2'' ''code'', buildRequest ''m2'' ''code''] \<and>
   Prompt (buildRequest ''m1'' ''code'') = buildPrompt ''code'' \<and>
   Options (buildRequest ''m1'' ''code'') = [(''num_ctx'', 131072), (''num_predict'', 1024)]"
  using request_only_model_changes [OF generate_example]
  by (simp add: generate_example exampleEnv_list afterExample_events
      availableModelsOf_def requestMatrix_def numeral_3_eq_3)


text \<open>
  Claim C7, as stated, fails: an attempt whose generation call fails leaves no debug
  file. Here six attempts are made and nothing is written.
\<close>

theorem debug_file_not_for_failed_attempt_counterexample:
  "generateUnitTests exampleEnv ''m1'' ''code'' (start []) = (Inl Exhausted, afterFailures) \<and>
   length (genCalls (newEvents (start []) afterFailures)) = 6 \<and>
   writesAt RawResponse (newEvents (start []) afterFailures) = []"
  by (simp add: generate_failures afterFailures_events)

text \<open>
  Claim C7, amended. For every generation call that is answered, and only for those, a
  debug file named after the model and the attempt number is written, whether or not
  the text passes the checks: the names of the debug files written in a run are those
  of its answered calls, in order, the call at position \<open>k\<close> being attempt
  \<open>k mod 3 + 1\<close> of its model.
\<close>

theorem debug_file_for_each_answered_attempt:
  assumes "generateUnitTests E model code \<sigma> = (res, \<sigma>')"
  shows "map fst (writesAt RawResponse (newEvents \<sigma> \<sigma>'))
           = map fst (debugArtifacts 0 (genCalls (newEvents \<sigma> \<sigma>')))"
proof (cases "fst (clientList E (world \<sigma>))")
  case None
  with generate_events [OF assms] show ?thesis by simp
next
  case (Some names)
  with generate_events [OF assms] obtain ass mres where
    n: "newEvents \<sigma> \<sigma>' = EvList (Some names)
          # matrixEvents (buildRequest model code) (availableModelsOf model names) ass" and
    s: "matrixShape (length (availableModelsOf model names)) mres ass" by blast
  from matrixShape_regular [OF s] have "regular ass" by simp
  from writesAt_matrixEvents_raw [OF this, of 0] n show ?thesis by simp
qed

text \<open>
  C7 (amended) at the run of three attempts: the failed first attempt leaves no file, the
  rejected second and the accepted third each leave theirs.
\<close>

theorem debug_file_witness:
  "generateUnitTests exampleEnv ''m1'' ''code'' (start exampleAnswers) = (Inr goodTests, afterExample) \<and>
   map fst (writesAt RawResponse (newEvents (start exampleAnswers) afterExample))
     = [''raw_response_m1_attempt_2.txt'', ''raw_response_m1_attempt_3.txt''] \<and>
   map fst (debugArtifacts 0 (genCalls (newEvents (start exampleAnswers) afterExample)))
     = [''raw_response_m1_attempt_2.txt'', ''raw_response_m1_attempt_3.txt''] \<and>
   validate (normalize ''no tests'') = Rejected (TooShort 8) \<and>
   validate (normalize goodTests) = Accepted goodTests"
  using debug_file_for_each_answered_attempt [OF generate_example]
  by (simp add: generate_example afterExample_events rawResponseName_def
      showNat_attempts shortAnswer normalize_goodTests goodTests_valid del: showNat.simps)


section \<open>The pipeline of one unit and the loop over the units\<close>

text \<open>
  Claim C1. In the run of one unit, a text is written to the tests directory only as the
  last step, to the path derived from the unit, and only when that text is the
  normalised answer of a generation call of this run and passes the checks, the
  compiler and the test binary of this run both ended without error, and the coverage
  tool's report parsed to a percentage of at least 80. An outcome \<open>Persisted\<close> is only
  reached through that write.
\<close>

theorem persisted_only_after_all_gates:
  assumes "processUnit E (filePath, content) \<sigma> = (out, \<sigma>')"
    and "(path, text) \<in> set (writesAt TestsDir (newEvents \<sigma> \<sigma>')) \<or> (\<exists>c. out = Persisted path c)"
  shows "path = testFileOf filePath \<and>
         (\<exists>tests. writesAt TestsDir (newEvents \<sigma> \<sigma>') = [(path, tests)] \<and>
            validate tests = Accepted tests \<and>
            (\<exists>req raw. (req, Some raw) \<in> set (genCalls (newEvents \<sigma> \<sigma>')) \<and> normalize raw = tests)) \<and>
         (\<exists>d co b ro n report m cov.
            toolCalls (newEvents \<sigma> \<sigma>')
              = [EvCompile d (True, co), EvRunTests b (True, ro), EvGcov n (True, report)] \<and>
            FindCoverage report = Some m \<and> ParseFloat m = Some cov \<and> 80 \<le> cov \<and>
            (out = Persisted path cov \<or> out = WriteFailed path))"
proof -
  from processUnit_events [OF assms(1)] assms(2)
  have p: "persistedBy filePath out (newEvents \<sigma> \<sigma>')"
    by (auto simp: notPersisted_def)
  then obtain tests saved d co b ro n report m cov req raw where
    w: "writesAt TestsDir (newEvents \<sigma> \<sigma>') = [(testFileOf filePath, tests)]" and
    o: "out = (if saved then Persisted (testFileOf filePath) cov else WriteFailed (testFileOf filePath))" and
    c: "(req, Some raw) \<in> set (genCalls (newEvents \<sigma> \<sigma>'))" "normalize raw = tests"
       "validate tests = Accepted tests" and
    t: "toolCalls (newEvents \<sigma> \<sigma>') = [EvCompile d (True, co), EvRunTests b (True, ro), EvGcov n (True, report)]"
       "FindCoverage report = Some m" "ParseFloat m = Some cov" "80 \<le> cov"
    unfolding persistedBy_def by blast
  from assms(2) w o have path: "path = testFileOf filePath" by (auto split: if_splits)
  have "\<exists>tests. writesAt TestsDir (newEvents \<sigma> \<sigma>') = [(path, tests)] \<and>
            validate tests = Accepted tests \<and>
            (\<exists>req raw. (req, Some raw) \<in> set (genCalls (newEvents \<sigma> \<sigma>')) \<and> normalize raw = tests)"
    using w c path by blast
  moreover have "\<exists>d co b ro n report m cov.
            toolCalls (newEvents \<sigma> \<sigma>')
              = [EvCompile d (True, co), EvRunTests b (True, ro), EvGcov n (True, report)] \<and>
            FindCoverage report = Some m \<and> ParseFloat m = Some cov \<and> 80 \<le> cov \<and>
            (out = Persisted path cov \<or> out = WriteFailed path)"
    using t o path by (cases saved) auto
  ultimately show ?thesis using path by blast
qed

text \<open>
  C1 at a unit whose text passes the checks, compiles, runs and is covered to exactly 80
  per cent: it is persisted.
\<close>

theorem persisted_witness:
  "fst calcRun = Persisted ''tests/calc_test.cpp'' 80 \<and>
   writesAt TestsDir (newEvents (start [Some goodTests]) (snd calcRun))
     = [(''tests/calc_test.cpp'', goodTests)] \<and>
   testFileOf ''codebase/calc.cpp'' = ''tests/calc_test.cpp'' \<and>
   validate goodTests = Accepted goodTests \<and>
   toolCalls (newEvents (start [Some goodTests]) (snd calcRun))
     = [EvCompile ''/tmp/unit-test-generator-1'' (True, []),
        EvRunTests (Join ''/tmp/unit-test-generator-1'' ''run_tests'') (True, []),
        EvGcov (Base ''codebase/calc.cpp'') (True, ''Lines executed:80.00% of 100'')] \<and>
   FindCoverage ''Lines executed:80.00% of 100'' = Some ''80.00'' \<and>
   ParseFloat ''80.00'' = Some 80"
proof -
  have p: "processUnit exampleEnv (''codebase/calc.cpp'', ''code'') (start [Some goodTests])
      = (fst calcRun, snd calcRun)" by (simp add: calcRun_def)
  have w: "(''tests/calc_test.cpp'', goodTests)
        \<in> set (writesAt TestsDir (newEvents (start [Some goodTests]) (snd calcRun)))
      \<or> (\<exists>c. fst calcRun = Persisted ''tests/calc_test.cpp'' c)"
    by (simp add: calcRun_eval)
  from persisted_only_after_all_gates [OF p w] show ?thesis
    by (simp add: calcRun_eval goodTests_valid FindCoverage_examples ParseFloat_examples
        testFileOf_examples del: FindCoverage.simps)
qed





text \<open>
  Claim C9. When the coverage tool was started and either failed or printed a report
  without the \<open>Lines executed\<close> pattern, \<open>runTestsAndCoverage\<close> returns the flag \<open>true\<close>
  with coverage 0 and an error; in \<open>processUnit\<close> that error, which is looked at before
  the flag, keeps the text from being written.
\<close>

theorem gcov_failure_still_reports_passed:
  "(runTestsAndCoverage E tests src \<sigma> = (res, \<sigma>') \<and>
    EvGcov n (ok, report) \<in> set (newEvents \<sigma> \<sigma>') \<and>
    (\<not> ok \<or> FindCoverage report = None) \<longrightarrow>
      res = (True, 0, Some (if ok then GcovParseFailed report else GcovFailed report))) \<and>
   (processUnit E (filePath, content) \<sigma> = (out, \<sigma>1) \<and>
    EvGcov n (ok, report) \<in> set (newEvents \<sigma> \<sigma>1) \<and>
    (\<not> ok \<or> FindCoverage report = None) \<longrightarrow>
      writesAt TestsDir (newEvents \<sigma> \<sigma>1) = [] \<and> notPersisted out)"
proof (rule conjI; rule impI; elim conjE)
  assume r: "runTestsAndCoverage E tests src \<sigma> = (res, \<sigma>')"
    and ev: "EvGcov n (ok, report) \<in> set (newEvents \<sigma> \<sigma>')"
    and bad: "\<not> ok \<or> FindCoverage report = None"
  from runTestsAndCoverage_events [OF r]
  have s: "runShape res (toolCalls (newEvents \<sigma> \<sigma>'))" by simp
  from in_toolCalls [OF ev] have "EvGcov n (ok, report) \<in> set (toolCalls (newEvents \<sigma> \<sigma>'))"
    by (simp add: isTool_def)
  with s bad show "res = (True, 0, Some (if ok then GcovParseFailed report else GcovFailed report))"
    by (auto simp: runShape_def coverageGate_no_match)
next
  assume p: "processUnit E (filePath, content) \<sigma> = (out, \<sigma>1)"
    and ev: "EvGcov n (ok, report) \<in> set (newEvents \<sigma> \<sigma>1)"
    and bad: "\<not> ok \<or> FindCoverage report = None"
  from in_toolCalls [OF ev] have t: "EvGcov n (ok, report) \<in> set (toolCalls (newEvents \<sigma> \<sigma>1))"
    by (simp add: isTool_def)
  have "\<not> persistedBy filePath out (newEvents \<sigma> \<sigma>1)"
  proof
    assume "persistedBy filePath out (newEvents \<sigma> \<sigma>1)"
    then obtain d co b ro n' report' m where
      "toolCalls (newEvents \<sigma> \<sigma>1) = [EvCompile d (True, co), EvRunTests b (True, ro), EvGcov n' (True, report')]"
      "FindCoverage report' = Some m"
      unfolding persistedBy_def by blast
    with t bad show False by auto
  qed
  with processUnit_events [OF p]
  show "writesAt TestsDir (newEvents \<sigma> \<sigma>1) = [] \<and> notPersisted out" by blast
qed

text \<open>C9 at a coverage tool that prints no report.\<close>

theorem gcov_failure_witness:
  "fst brokenCoverage = (True, 0, Some (GcovParseFailed ''no report'')) \<and>
   EvGcov (Base ''codebase/calc.cpp'') (True, ''no report'')
     \<in> set (newEvents (start []) (snd brokenCoverage)) \<and>
   FindCoverage ''no report'' = None \<and>
   fst brokenRun = TestValidationFailed (GcovParseFailed ''no report'') \<and>
   EvGcov (Base ''codebase/calc.cpp'') (True, ''no report'')
     \<in> set (newEvents (start [Some goodTests]) (snd brokenRun)) \<and>
   writesAt TestsDir (newEvents (start [Some goodTests]) (snd brokenRun)) = []"
proof -
  have r: "runTestsAndCoverage brokenGcovEnv goodTests ''codebase/calc.cpp'' (start [])
      = (fst brokenCoverage, snd brokenCoverage)" by (simp add: brokenCoverage_def)
  have p: "processUnit brokenGcovEnv (''codebase/calc.cpp'', ''code'') (start [Some goodTests])
      = (fst brokenRun, snd brokenRun)" by (simp add: brokenRun_def)
  from gcov_failure_still_reports_passed [of brokenGcovEnv goodTests "''codebase/calc.cpp''"
      "start []" "fst brokenCoverage" "snd brokenCoverage" "Base ''codebase/calc.cpp''" True
      "''no report''" "''codebase/calc.cpp''" "''code''" "fst brokenRun" "snd brokenRun"] r p
  show ?thesis
    by (simp add: brokenCoverage_eval brokenRun_eval noReport del: FindCoverage.simps)
qed


text \<open>
  Claim C4. The comparison with the threshold is inclusive: a parsed percentage below 80
  is rejected with the percentage in the error, one of 80 or more is accepted and
  returned. The report \<open>Lines executed:79.99% of 100\<close> parses to the \<open>float64\<close> nearest
  to 79.99, which is below 80, and is rejected; \<open>Lines executed:80.00% of 100\<close> parses
  to 80 and is accepted.
\<close>

theorem coverage_gate_inclusive:
  "(FindCoverage report = Some m \<and> ParseFloat m = Some c \<longrightarrow>
      (c < 80 \<longrightarrow> coverageGate report = (False, c, Some (BelowThreshold c))) \<and>
      (80 \<le> c \<longrightarrow> coverageGate report = (True, c, None))) \<and>
   coverageGate ''Lines executed:79.99% of 100''
     = (False, 5628795846771343 / 70368744177664,
        Some (BelowThreshold (5628795846771343 / 70368744177664))) \<and>
   (5628795846771343 / 70368744177664 :: rat) < 80 \<and>
   coverageGate ''Lines executed:80.00% of 100'' = (True, 80, None)"
proof (intro conjI)
  show "FindCoverage report = Some m \<and> ParseFloat m = Some c \<longrightarrow>
      (c < 80 \<longrightarrow> coverageGate report = (False, c, Some (BelowThreshold c))) \<and>
      (80 \<le> c \<longrightarrow> coverageGate report = (True, c, None))"
    by (auto simp: coverageGate_def)
  show "coverageGate ''Lines executed:79.99% of 100''
     = (False, 5628795846771343 / 70368744177664,
        Some (BelowThreshold (5628795846771343 / 70368744177664)))"
    by (rule coverageGate_examples)
  show "(5628795846771343 / 70368744177664 :: rat) < 80" by simp
  show "coverageGate ''Lines executed:80.00% of 100'' = (True, 80, None)"
    by (rule coverageGate_examples)
qed

text \<open>C4 at the two reports of the claim.\<close>

theorem coverage_gate_witness:
  "FindCoverage ''Lines executed:79.99% of 100'' = Some ''79.99'' \<and>
   ParseFloat ''79.99'' = Some (5628795846771343 / 70368744177664) \<and>
   (5628795846771343 / 70368744177664 :: rat) < 80 \<and>
   coverageGate ''Lines executed:79.99% of 100''
     = (False, 5628795846771343 / 70368744177664,
        Some (BelowThreshold (5628795846771343 / 70368744177664))) \<and>
   FindCoverage ''Lines executed:80.00% of 100'' = Some ''80.00'' \<and>
   ParseFloat ''80.00'' = Some 80 \<and>
   coverageGate ''Lines executed:80.00% of 100'' = (True, 80, None)"
  using coverage_gate_inclusive [of "''Lines executed:79.99% of 100''" "''79.99''"
      "5628795846771343 / 70368744177664"]
  by (simp add: FindCoverage_examples ParseFloat_examples del: FindCoverage.simps)


text \<open>
  Claim C10 at the header \<open>codebase/a.cpp.h\<close>, whose companion by line 349 is
  \<open>codebase/a.cpp.cpp\<close>: \<open>strings.Replace\<close> rewrites the first occurrence of the
  extension, not the suffix that \<open>strings.HasSuffix\<close> tested, and the two output paths
  differ. (The companion is itself processed when the file that line 355 names for it,
  \<open>codebase/a.h.cpp\<close>, exists.)
\<close>

theorem test_file_paths_differ_for_dotted_stem:
  "Replace1 ''codebase/a.cpp.h'' ''.h'' ''.cpp'' = ''codebase/a.cpp.cpp'' \<and>
   testFileOf ''codebase/a.cpp.h'' = ''tests/a.cpp_test.cpp'' \<and>
   testFileOf ''codebase/a.cpp.cpp'' = ''tests/a_test.cpp.cpp'' \<and>
   Replace1 ''codebase/a.cpp.cpp'' ''.cpp'' ''.h'' = ''codebase/a.h.cpp''"
  by code_simp

end
